theory Spec2Isabelle
  imports Complex_Main "HOL-Library.Multiset"
begin

section \<open>Python strings\<close>

text \<open>
  A Python \<open>str\<close> is modelled by the list of its code points, each below 256 (an
  Isabelle \<open>char\<close>); \<open>len\<close> is \<open>length\<close>. On these code points \<open>str.lower\<close> maps
  \<open>A-Z\<close> and the Latin-1 capitals (192 to 222, without the multiplication sign 215) to
  the code point 32 above, and \<open>str.strip\<close> removes the code points for which
  \<open>str.isspace\<close> holds.
\<close>

definition lower_char :: "char \<Rightarrow> char" where
  "lower_char c =
     (let n = (of_char c :: nat)
      in if (65 \<le> n \<and> n \<le> 90) \<or> (192 \<le> n \<and> n \<le> 222 \<and> n \<noteq> 215)
         then char_of (n + 32) else c)"

definition py_lower :: "string \<Rightarrow> string" where
  "py_lower s = map lower_char s"

definition py_isspace :: "char \<Rightarrow> bool" where
  "py_isspace c =
     ((of_char c :: nat) \<in> {9, 10, 11, 12, 13, 28, 29, 30, 31, 32, 133, 160})"

definition py_strip :: "string \<Rightarrow> string" where
  "py_strip s = rev (dropWhile py_isspace (rev (dropWhile py_isspace s)))"

definition startswith :: "string \<Rightarrow> string \<Rightarrow> bool" where
  "startswith s p = (take (length p) s = p)"

text \<open>\<open>s.split(c)\<close> for a separator of one character: never the empty list.\<close>

fun py_split :: "char \<Rightarrow> string \<Rightarrow> string list" where
  "py_split c [] = [[]]"
| "py_split c (x # xs) =
     (if x = c then [] # py_split c xs
      else (case py_split c xs of
              [] \<Rightarrow> [[x]]
            | w # ws \<Rightarrow> (x # w) # ws))"

text \<open>\<open>sep.join(xs)\<close>.\<close>

fun py_join :: "string \<Rightarrow> string list \<Rightarrow> string" where
  "py_join sep [] = []"
| "py_join sep [x] = x"
| "py_join sep (x # y # ys) = x @ sep @ py_join sep (y # ys)"

definition newline :: char where
  "newline = CHR 0x0A"

section \<open>LeadGenerator: domain extraction\<close>

text \<open>
  \<open>re.sub(r'^https?://', '', s)\<close> and \<open>re.sub(r'^www\.', '', s)\<close>: the pattern is
  anchored at the start, so at most one occurrence is removed.
\<close>

definition sub_protocol :: "string \<Rightarrow> string" where
  "sub_protocol s =
     (if startswith s ''https://'' then drop 8 s
      else if startswith s ''http://'' then drop 7 s
      else s)"

definition sub_www :: "string \<Rightarrow> string" where
  "sub_www s = (if startswith s ''www.'' then drop 4 s else s)"

text \<open>
  \<open>_extract_domain\<close>. No operation of the \<open>try\<close> block raises on a \<open>str\<close>, so the
  \<open>except\<close> branch is not reached.
\<close>

definition extract_domain :: "string \<Rightarrow> string" where
  "extract_domain url =
     (let domain = sub_protocol (py_lower url);
          domain = sub_www domain;
          domain = hd (py_split CHR ''?'' (hd (py_split CHR ''/'' domain)))
      in domain)"

section \<open>LeadGenerator: state and duplicate filter\<close>

text \<open>The \<open>stats\<close> dictionary of \<open>LeadGenerator.__init__\<close>, with its four keys.\<close>

record stats =
  completed_batches :: int
  total_leads_generated :: int
  failed_batches :: int
  duplicates_prevented :: int

text \<open>
  The fields of a \<open>LeadGenerator\<close> that the batch loop reads and writes. An entry of
  \<open>backup_data\<close> is the batch text; its time stamp is left out.
\<close>

record generator =
  backup_data :: "string list"
  generated_emails :: "string set"
  generated_names :: "string set"
  generated_domains :: "string set"
  stats :: stats

definition init_generator :: generator where
  "init_generator =
     \<lparr>backup_data = [],
      generated_emails = {},
      generated_names = {},
      generated_domains = {},
      stats = \<lparr>completed_batches = 0, total_leads_generated = 0,
               failed_batches = 0, duplicates_prevented = 0\<rparr>\<rparr>"

text \<open>
  The three identity components that \<open>_parse_and_filter_batch\<close> derives from the
  fields of a line.
\<close>

definition line_parts :: "string \<Rightarrow> string list" where
  "line_parts line = map py_strip (py_split CHR '','' line)"

definition line_name :: "string \<Rightarrow> string" where
  "line_name line = py_strip (py_lower (line_parts line ! 0))"

definition line_email :: "string \<Rightarrow> string" where
  "line_email line = py_strip (py_lower (line_parts line ! 1))"

definition line_domain :: "string \<Rightarrow> string" where
  "line_domain line = extract_domain (py_strip (line_parts line ! 2))"

text \<open>
  The body of the \<open>for line in lines\<close> loop, on the loop state
  \<open>(self, filtered_lines, duplicates_found)\<close>. The three indexings happen only when
  there are at least three parts, and no statement of the \<open>try\<close> block raises.
\<close>

definition filter_line ::
  "string \<Rightarrow> generator \<times> string list \<times> int \<Rightarrow> generator \<times> string list \<times> int" where
  "filter_line line acc =
     (case acc of (self, filtered_lines, duplicates_found) \<Rightarrow>
        if py_strip line = [] \<or> startswith line ''name,'' then acc
        else if length (line_parts line) < 3 then acc
        else
          let name = line_name line;
              email = line_email line;
              domain = line_domain line
          in if email \<in> generated_emails self \<or> name \<in> generated_names self
                \<or> domain \<in> generated_domains self
             then (self, filtered_lines, duplicates_found + 1)
             else
               (self\<lparr>generated_emails := insert email (generated_emails self),
                      generated_names := insert name (generated_names self),
                      generated_domains :=
                        (if domain \<noteq> [] then insert domain (generated_domains self)
                         else generated_domains self)\<rparr>,
                filtered_lines @ [line],
                duplicates_found))"

text \<open>
  The loop of \<open>_parse_and_filter_batch\<close> over the lines of the stripped text, from
  an empty \<open>filtered_lines\<close> and \<open>duplicates_found = 0\<close>.
\<close>

definition batch_loop :: "generator \<Rightarrow> string \<Rightarrow> generator \<times> string list \<times> int" where
  "batch_loop self batch_data =
     fold filter_line (py_split newline (py_strip batch_data)) (self, [], 0)"

text \<open>\<open>_parse_and_filter_batch\<close>: the returned text and the updated generator.\<close>

definition parse_and_filter_batch :: "generator \<Rightarrow> string \<Rightarrow> string \<times> generator" where
  "parse_and_filter_batch self batch_data =
     (if batch_data = [] then ([], self)
      else
        let (self1, filtered_lines, duplicates_found) = batch_loop self batch_data;
            self2 =
              (if duplicates_found > 0
               then self1\<lparr>stats := (stats self1)
                      \<lparr>duplicates_prevented :=
                         duplicates_prevented (stats self1) + duplicates_found\<rparr>\<rparr>
               else self1)
        in (py_join [newline] filtered_lines, self2))"

text \<open>
  The lines that the loop kept for a batch text (\<open>filtered_lines\<close> at the
  \<open>return\<close>), and a run of the filter over the texts of several batches in the order
  in which they are evaluated: the lines kept so far and the generator.
\<close>

definition kept_lines :: "generator \<Rightarrow> string \<Rightarrow> string list" where
  "kept_lines self batch_data =
     (if batch_data = [] then [] else fst (snd (batch_loop self batch_data)))"

fun filter_run :: "string list \<Rightarrow> string list \<times> generator \<Rightarrow> string list \<times> generator" where
  "filter_run [] acc = acc"
| "filter_run (batch_data # rest) (kept, self) =
     filter_run rest
       (kept @ kept_lines self batch_data, snd (parse_and_filter_batch self batch_data))"

text \<open>
  A line that the loop evaluates: not blank, not a repeated header, and with at least
  three comma-separated fields.
\<close>

definition parseable :: "string \<Rightarrow> bool" where
  "parseable line =
     (py_strip line \<noteq> [] \<and> \<not> startswith line ''name,'' \<and> 3 \<le> length (line_parts line))"

definition collides :: "generator \<Rightarrow> string \<Rightarrow> bool" where
  "collides self line =
     (line_email line \<in> generated_emails self \<or> line_name line \<in> generated_names self
      \<or> line_domain line \<in> generated_domains self)"

text \<open>The key sets of \<open>b\<close> contain those of \<open>a\<close>.\<close>

definition keys_grow :: "generator \<Rightarrow> generator \<Rightarrow> bool" where
  "keys_grow a b =
     (generated_emails a \<subseteq> generated_emails b
      \<and> generated_names a \<subseteq> generated_names b
      \<and> generated_domains a \<subseteq> generated_domains b)"

text \<open>
  The kept lines of a run have pairwise different emails, pairwise different names and
  pairwise different non-empty domains, and each of these keys is in the state.
\<close>

definition accepted_unique :: "string list \<Rightarrow> bool" where
  "accepted_unique kept =
     (distinct (map line_email kept) \<and> distinct (map line_name kept)
      \<and> distinct (filter (\<lambda>d. d \<noteq> []) (map line_domain kept)))"

definition keys_registered :: "string list \<Rightarrow> generator \<Rightarrow> bool" where
  "keys_registered kept self =
     (line_email ` set kept \<subseteq> generated_emails self
      \<and> line_name ` set kept \<subseteq> generated_names self
      \<and> {d \<in> line_domain ` set kept. d \<noteq> []} \<subseteq> generated_domains self)"

section \<open>EnhancedAPIKeyRotator\<close>

datatype exn =
    ValueError
  | IndexError
  | ZeroDivisionError
  | FileNotFoundError
  | UnicodeDecodeError
  | KeyError string
  | TypeError
  | AttributeError string
  | LibraryError

text \<open>
  The fields set by \<open>__init__\<close>. The two count dictionaries are read with
  \<open>.get(key, 0)\<close>.
\<close>

record rotator =
  api_keys :: "string list"
  current_key_index :: nat
  key_usage_count :: "string \<rightharpoonup> int"
  key_error_count :: "string \<rightharpoonup> int"
  max_requests_per_key :: int
  max_errors_per_key :: int

definition dict_get :: "(string \<rightharpoonup> int) \<Rightarrow> string \<Rightarrow> int \<Rightarrow> int" where
  "dict_get m k dflt = (case m k of None \<Rightarrow> dflt | Some v \<Rightarrow> v)"

definition get_current_key :: "rotator \<Rightarrow> exn + string" where
  "get_current_key self =
     (if api_keys self = [] then Inl ValueError
      else if current_key_index self < length (api_keys self)
           then Inr (api_keys self ! current_key_index self)
           else Inl IndexError)"

text \<open>
  The loop \<open>for _ in range(len(self.api_keys))\<close> of \<open>rotate_key\<close>, with the number
  of iterations that remain: advance the index circularly and stop at the first key
  whose error count is below the cap.
\<close>

fun find_next_healthy :: "nat \<Rightarrow> rotator \<Rightarrow> exn + rotator" where
  "find_next_healthy 0 self = Inr self"
| "find_next_healthy (Suc k) self =
     (let self1 = self\<lparr>current_key_index :=
                    (current_key_index self + 1) mod length (api_keys self)\<rparr>
      in case get_current_key self1 of
           Inl e \<Rightarrow> Inl e
         | Inr candidate_key \<Rightarrow>
             if dict_get (key_error_count self1) candidate_key 0 < max_errors_per_key self1
             then Inr self1
             else find_next_healthy k self1)"

text \<open>
  \<open>rotate_key\<close>: the returned key (or the exception) and the rotator afterwards.
  \<open>rnd\<close> is the value of \<open>random.random()\<close>.
\<close>

definition rotate_key :: "rotator \<Rightarrow> rat \<Rightarrow> (exn + string) \<times> rotator" where
  "rotate_key self rnd =
     (if length (api_keys self) = 1 then (get_current_key self, self)
      else
        case get_current_key self of
          Inl e \<Rightarrow> (Inl e, self)
        | Inr current_key \<Rightarrow>
            let usage_count = dict_get (key_usage_count self) current_key 0;
                error_count = dict_get (key_error_count self) current_key 0;
                should_rotate =
                  (usage_count \<ge> max_requests_per_key self
                   \<or> error_count \<ge> max_errors_per_key self
                   \<or> rnd < 5 / 100)
            in if should_rotate
               then (case find_next_healthy (length (api_keys self)) self of
                       Inl e \<Rightarrow> (Inl e, self)
                     | Inr self1 \<Rightarrow> (get_current_key self1, self1))
               else (Inr current_key, self))"

text \<open>A key is healthy when its error count is below the cap.\<close>

definition healthy :: "rotator \<Rightarrow> string \<Rightarrow> bool" where
  "healthy self k = (dict_get (key_error_count self) k 0 < max_errors_per_key self)"

section \<open>Config\<close>

text \<open>
  The dataclass \<open>Config\<close>, field by field. \<open>config_default\<close> takes the time stamp
  that \<open>datetime.now().strftime\<close> produced when the class was defined.
\<close>

record config =
  num_batches :: int
  concurrency_level :: int
  leads_per_batch :: int
  api_delay :: rat
  backup_interval :: int
  max_retries :: int
  retry_delay :: rat
  min_opportunity_score :: int
  duplicate_check_enabled :: bool
  email_validation_enabled :: bool
  timestamp :: string
  output_file :: string
  backup_file :: string
  progress_file :: string
  premium_leads_file :: string
  standard_leads_file :: string
  emerging_leads_file :: string

definition config_default :: "string \<Rightarrow> config" where
  "config_default ts =
     \<lparr>num_batches = 667,
      concurrency_level = 12,
      leads_per_batch = 15,
      api_delay = 3 / 10,
      backup_interval = 25,
      max_retries = 3,
      retry_delay = 2,
      min_opportunity_score = 60,
      duplicate_check_enabled = True,
      email_validation_enabled = True,
      timestamp = ts,
      output_file = ''MASTER_LEADS_10K_'' @ ts @ ''.csv'',
      backup_file = ''leads_backup_'' @ ts @ ''.json'',
      progress_file = ''progress_checkpoint_'' @ ts @ ''.json'',
      premium_leads_file = ''PREMIUM_leads_'' @ ts @ ''.csv'',
      standard_leads_file = ''standard_leads_'' @ ts @ ''.csv'',
      emerging_leads_file = ''emerging_business_leads_'' @ ts @ ''.csv''\<rparr>"

section \<open>LeadGenerator: batches and the orchestration loop\<close>

text \<open>
  What the \<open>try\<close> block of \<open>generate_batch\<close> meets before the filter runs: an
  exception (from the key rotation, the prompt, the remote call or the access to
  \<open>response.text\<close>), or the text of the response. The rotator's own state does not
  influence the flow of the text and is left out of the batch loop.
\<close>

datatype outcome = Raised | Responded string

definition generate_batch :: "generator \<Rightarrow> outcome \<Rightarrow> string option \<times> generator" where
  "generate_batch self out =
     (case out of
        Raised \<Rightarrow>
          (None, self\<lparr>stats := (stats self)
                   \<lparr>failed_batches := failed_batches (stats self) + 1\<rparr>\<rparr>)
      | Responded text \<Rightarrow>
          (let (filtered_data, self1) = parse_and_filter_batch self (py_strip text)
           in (Some filtered_data, self1)))"

text \<open>
  The test \<open>data and len(data.strip()) > 50\<close>, made by \<open>save_results\<close> and, on the
  result of a batch, by \<open>process_batches\<close>.
\<close>

definition sufficient :: "string \<Rightarrow> bool" where
  "sufficient data = (data \<noteq> [] \<and> length (py_strip data) > 50)"

text \<open>
  The files: the text of the output file, the snapshots written to the backup file
  (oldest first; the file holds the last one), and the list of the results that
  \<open>asyncio.gather\<close> returned, in the order in which the loop went through them. Writes
  are taken to succeed.
\<close>

record world =
  master_csv :: string
  backup_writes :: "string list list"
  gathered :: "(int \<times> string option) list"

definition save_results :: "generator \<Rightarrow> string \<Rightarrow> string \<Rightarrow> string \<times> generator" where
  "save_results self data file =
     (if sufficient data
      then (file @ data @ [newline], self\<lparr>backup_data := backup_data self @ [data]\<rparr>)
      else (file, self))"

definition save_backup :: "generator \<Rightarrow> world \<Rightarrow> world" where
  "save_backup self w = w\<lparr>backup_writes := backup_writes w @ [backup_data self]\<rparr>"

definition header :: string where
  "header =
     ''name,email,website,industry,business_type,location,current_social_presence_score,''
     @ ''instagram_presence,tiktok_presence,youtube_shorts_presence,facebook_presence,''
     @ ''linkedin_presence,last_post_estimate,follower_count_estimate,content_frequency_score,''
     @ ''visual_content_suitability,target_demographic_alignment,competition_saturation_level,''
     @ ''estimated_monthly_revenue,marketing_budget_indicators,pain_points,opportunity_score,''
     @ ''contact_likelihood,ideal_content_strategy,projected_roi_potential'' @ [newline]"

text \<open>
  The tasks of a window resolve one after the other, each in one uninterrupted step, in
  the order \<open>ks\<close>; \<open>results\<close> collects what each task returned.
\<close>

fun complete_tasks ::
  "(int \<Rightarrow> outcome) \<Rightarrow> int list \<Rightarrow> generator \<times> (int \<Rightarrow> string option)
   \<Rightarrow> generator \<times> (int \<Rightarrow> string option)" where
  "complete_tasks remote [] acc = acc"
| "complete_tasks remote (k # ks) (self, results) =
     (let (result, self1) = generate_batch self (remote k)
      in complete_tasks remote ks (self1, results(k := result)))"

text \<open>
  The body of \<open>for batch_num, result in zip(batch_nums, results)\<close>. A result is
  \<open>None\<close> or a string, never an exception object, since \<open>generate_batch\<close> catches
  every \<open>Exception\<close>; for \<open>None\<close> and for an insufficient text only the warning is
  logged.
\<close>

definition handle_result ::
  "int \<Rightarrow> string option \<Rightarrow> generator \<times> world \<Rightarrow> generator \<times> world" where
  "handle_result batch_num result acc =
     (case acc of (self, w) \<Rightarrow>
        let w1 = w\<lparr>gathered := gathered w @ [(batch_num, result)]\<rparr>
        in case result of
             None \<Rightarrow> (self, w1)
           | Some r \<Rightarrow>
               if sufficient r
               then
                 let (file, self1) = save_results self r (master_csv w1);
                     estimated_leads = max 0 (int (length (filter (\<lambda>c. c = newline) r)));
                     self2 = self1\<lparr>stats := (stats self1)
                       \<lparr>completed_batches := completed_batches (stats self1) + 1,
                        total_leads_generated :=
                          total_leads_generated (stats self1) + estimated_leads\<rparr>\<rparr>
                 in (self2, w1\<lparr>master_csv := file\<rparr>)
               else (self, w1))"

text \<open>
  One window, starting at batch \<open>i\<close>: \<open>batch_nums\<close> is
  \<open>range(i, min(i + concurrency_level, num_batches + 1))\<close>; the tasks resolve in the
  order of the times \<open>done_at\<close> (issue order among equal times); then the results are
  gone through in issue order.
\<close>

definition batch_nums :: "config \<Rightarrow> int \<Rightarrow> int list" where
  "batch_nums cfg i = [i .. min (i + concurrency_level cfg) (num_batches cfg + 1) - 1]"

definition process_window ::
  "config \<Rightarrow> (int \<Rightarrow> outcome) \<Rightarrow> (int \<Rightarrow> nat) \<Rightarrow> int \<Rightarrow> generator \<times> world
   \<Rightarrow> generator \<times> world" where
  "process_window cfg remote done_at i acc =
     (case acc of (self, w) \<Rightarrow>
        let (self1, results) =
              complete_tasks remote (sort_key done_at (batch_nums cfg i)) (self, \<lambda>_. None)
        in fold (\<lambda>batch_num. handle_result batch_num (results batch_num))
             (batch_nums cfg i) (self1, w))"

text \<open>
  The loop \<open>for i in range(1, num_batches + 1, concurrency_level)\<close> for a positive
  step, from the window that starts at \<open>i\<close>. The result is the exception that escapes,
  if any, and the state at that moment.
\<close>

function process_windows ::
  "config \<Rightarrow> (int \<Rightarrow> outcome) \<Rightarrow> (int \<Rightarrow> nat) \<Rightarrow> int \<Rightarrow> generator \<times> world
   \<Rightarrow> exn option \<times> generator \<times> world" where
  "process_windows cfg remote done_at i acc =
     (if 0 < concurrency_level cfg \<and> i < num_batches cfg + 1
      then
        let (self1, w1) = process_window cfg remote done_at i acc
        in if backup_interval cfg = 0 then (Some ZeroDivisionError, self1, w1)
           else
             let w2 = (if completed_batches (stats self1) mod backup_interval cfg = 0
                       then save_backup self1 w1 else w1)
             in process_windows cfg remote done_at (i + concurrency_level cfg) (self1, w2)
      else (None, acc))"
  by pat_completeness auto
termination
  by (relation "measure (\<lambda>(cfg, remote, done_at, i, acc). nat (num_batches cfg + 1 - i))") auto

text \<open>
  \<open>process_batches\<close>. A step of 0 makes \<open>range\<close> raise; with a negative step the
  range is empty unless \<open>num_batches + 1 < 1\<close>, and then the first window has no batch
  and \<open>min(batch_nums)\<close> raises. After the loop come the final backup and
  \<open>_log_final_stats\<close>, which divides by \<open>num_batches\<close>.
\<close>

definition process_batches ::
  "config \<Rightarrow> (int \<Rightarrow> outcome) \<Rightarrow> (int \<Rightarrow> nat) \<Rightarrow> generator
   \<Rightarrow> exn option \<times> generator \<times> world" where
  "process_batches cfg remote done_at self =
     (let w0 = \<lparr>master_csv = header, backup_writes = [], gathered = []\<rparr>
      in if concurrency_level cfg = 0 then (Some ValueError, self, w0)
         else if concurrency_level cfg < 0 \<and> num_batches cfg + 1 < 1
         then (Some ValueError, self, w0)
         else
           case process_windows cfg remote done_at 1 (self, w0) of
             (Some e, self1, w1) \<Rightarrow> (Some e, self1, w1)
           | (None, self1, w1) \<Rightarrow>
               let w2 = save_backup self1 w1
               in if num_batches cfg = 0 then (Some ZeroDivisionError, self1, w2)
                  else (None, self1, w2))"

text \<open>The texts of a list of gathered results that passed the test \<open>sufficient\<close>.\<close>

fun written_texts :: "(int \<times> string option) list \<Rightarrow> string list" where
  "written_texts [] = []"
| "written_texts ((k, None) # rest) = written_texts rest"
| "written_texts ((k, Some r) # rest) =
     (if sufficient r then r # written_texts rest else written_texts rest)"

fun count_failed :: "(int \<times> string option) list \<Rightarrow> int" where
  "count_failed [] = 0"
| "count_failed ((k, None) # rest) = 1 + count_failed rest"
| "count_failed ((k, Some r) # rest) = count_failed rest"

fun count_insufficient :: "(int \<times> string option) list \<Rightarrow> int" where
  "count_insufficient [] = 0"
| "count_insufficient ((k, None) # rest) = count_insufficient rest"
| "count_insufficient ((k, Some r) # rest) =
     (if sufficient r then count_insufficient rest else 1 + count_insufficient rest)"

text \<open>
  What a stretch of the loop does to the counters and the files, in terms of the results
  \<open>D\<close> it gathered: one failure per \<open>None\<close>, one completed batch, one appended text
  and one backup entry per sufficient text.
\<close>

definition run_effect ::
  "generator \<times> world \<Rightarrow> (int \<times> string option) list \<Rightarrow> generator \<times> world \<Rightarrow> bool" where
  "run_effect s D s' =
     (gathered (snd s') = gathered (snd s) @ D
      \<and> failed_batches (stats (fst s')) = failed_batches (stats (fst s)) + count_failed D
      \<and> completed_batches (stats (fst s'))
          = completed_batches (stats (fst s)) + int (length (written_texts D))
      \<and> master_csv (snd s')
          = master_csv (snd s) @ concat (map (\<lambda>t. t @ [newline]) (written_texts D))
      \<and> backup_data (fst s') = backup_data (fst s) @ written_texts D)"

text \<open>
  Runs of four batches in windows of two, used to evaluate the loop: every remote call
  answers; calls 1 and 3 raise; call 2 answers with a short line.
\<close>

definition example_config :: config where
  "example_config =
     (config_default ''20240101_0000'')
       \<lparr>num_batches := 4, concurrency_level := 2, backup_interval := 3\<rparr>"

definition example_response :: "int \<Rightarrow> string" where
  "example_response k =
     (if k = 1 then ''Acme Salon,info@acme.com,acme.com,beauty,salon,Austin TX,2''
      else if k = 2 then ''Bolt Gym,hello@bolt.io,bolt.io,fitness,gym,Denver CO,3,none''
      else if k = 3 then ''Cafe Uno,ciao@cafeuno.it,cafeuno.it,food,cafe,Boston MA,1''
      else ''Delta Dental,team@deltadental.org,deltadental.org,health,clinic,Reno NV,2'')"

definition all_respond :: "int \<Rightarrow> outcome" where
  "all_respond k = Responded (example_response k)"

definition two_fail :: "int \<Rightarrow> outcome" where
  "two_fail k = (if k = 1 \<or> k = 3 then Raised else Responded (example_response k))"

definition one_short :: "int \<Rightarrow> outcome" where
  "one_short k = (if k = 2 then Responded ''Bolt Gym,hello@bolt.io,bolt.io''
                  else Responded (example_response k))"

definition two_fail_short :: "int \<Rightarrow> outcome" where
  "two_fail_short k =
     (if k = 1 \<or> k = 3 then Raised
      else if k = 2 then Responded ''Bolt Gym,hello@bolt.io,bolt.io''
      else Responded ''Cafe Uno,ciao@cafeuno.it,cafeuno.it'')"

section \<open>LeadSegmenter: rows and the adoption level\<close>

text \<open>
  A float is a rational, an infinity or NaN; the binary rounding of a decimal literal and
  of a product is not modelled, so a parsed number is the exact decimal. A cell of a
  table read by pandas is an integer, a float or a string; a row (a \<open>pd.Series\<close>) maps
  column names to cells.
\<close>

datatype fl = Fin rat | PInf | NInf | NaN

datatype cell = CInt int | CFloat fl | CStr string

type_synonym row = "string \<rightharpoonup> cell"

text \<open>
  Two functions of the libraries are taken as parameters: what
  \<open>pd.to_numeric(s, errors='coerce')\<close> makes of a string (NaN when it is no number),
  and \<open>str\<close> of a float.
\<close>

record pylib =
  str_to_numeric :: "string \<Rightarrow> fl"
  float_repr :: "fl \<Rightarrow> string"

definition to_numeric :: "pylib \<Rightarrow> cell \<Rightarrow> fl" where
  "to_numeric lib c =
     (case c of CInt i \<Rightarrow> Fin (of_int i) | CFloat f \<Rightarrow> f | CStr s \<Rightarrow> str_to_numeric lib s)"

text \<open>\<open>x or 0\<close>: 0 when \<open>x\<close> is false, that is zero; NaN is true.\<close>

definition or_zero :: "fl \<Rightarrow> fl" where
  "or_zero x = (if x = Fin 0 then Fin 0 else x)"

fun str_nat :: "nat \<Rightarrow> string" where
  "str_nat n =
     (if n < 10 then [char_of (48 + n)]
      else str_nat (n div 10) @ [char_of (48 + n mod 10)])"

definition str_int :: "int \<Rightarrow> string" where
  "str_int i = (if i < 0 then CHR ''-'' # str_nat (nat (- i)) else str_nat (nat i))"

definition py_str :: "pylib \<Rightarrow> cell \<Rightarrow> string" where
  "py_str lib c =
     (case c of CInt i \<Rightarrow> str_int i | CFloat f \<Rightarrow> float_repr lib f | CStr s \<Rightarrow> s)"

definition row_get :: "row \<Rightarrow> string \<Rightarrow> cell \<Rightarrow> cell" where
  "row_get r col dflt = (case r col of None \<Rightarrow> dflt | Some c \<Rightarrow> c)"

text \<open>Comparison of a float with a number: false for NaN.\<close>

definition fl_le :: "fl \<Rightarrow> rat \<Rightarrow> bool" where
  "fl_le x t = (case x of Fin v \<Rightarrow> v \<le> t | NInf \<Rightarrow> True | PInf \<Rightarrow> False | NaN \<Rightarrow> False)"

definition fl_ge :: "fl \<Rightarrow> rat \<Rightarrow> bool" where
  "fl_ge x t = (case x of Fin v \<Rightarrow> v \<ge> t | PInf \<Rightarrow> True | NInf \<Rightarrow> False | NaN \<Rightarrow> False)"

text \<open>The dictionary \<open>score_map\<close>, read with \<open>.get(presence, 0)\<close>.\<close>

definition score_map :: "string \<rightharpoonup> int" where
  "score_map = [''none'' \<mapsto> 0, ''minimal'' \<mapsto> 1, ''moderate'' \<mapsto> 2, ''strong'' \<mapsto> 3]"

definition platforms :: "string list" where
  "platforms = [''instagram_presence'', ''tiktok_presence'', ''youtube_shorts_presence'']"

text \<open>
  The character class \<open>[\d.]\<close> (on code points below 256 \<open>\d\<close> is \<open>0-9\<close>), the first
  maximal run of it (\<open>re.search(r'[\d.]+', s)\<close>), and the first maximal run that is
  followed by the letter \<open>ch\<close> (\<open>re.search(r'([\d.]+)k', s)\<close>, group 1): a shorter run
  is followed by a character of the class, never by the letter.
\<close>

definition is_num_char :: "char \<Rightarrow> bool" where
  "is_num_char c = ((48 \<le> (of_char c :: nat) \<and> (of_char c :: nat) \<le> 57) \<or> c = CHR ''.'')"

definition search_run :: "string \<Rightarrow> string option" where
  "search_run s =
     (let t = dropWhile (\<lambda>c. \<not> is_num_char c) s
      in if t = [] then None else Some (takeWhile is_num_char t))"

fun search_run_before :: "char \<Rightarrow> string \<Rightarrow> string \<Rightarrow> string option" where
  "search_run_before ch run [] = None"
| "search_run_before ch run (c # cs) =
     (if is_num_char c then search_run_before ch (run @ [c]) cs
      else if c = ch \<and> run \<noteq> [] then Some run
      else search_run_before ch [] cs)"

text \<open>
  \<open>float(s)\<close> for a string of digits and dots, the only strings the patterns capture:
  at most one dot and at least one digit, else \<open>ValueError\<close>.
\<close>

definition digits_val :: "string \<Rightarrow> nat" where
  "digits_val ds = foldl (\<lambda>a c. 10 * a + ((of_char c :: nat) - 48)) 0 ds"

definition is_digit :: "char \<Rightarrow> bool" where
  "is_digit c = (48 \<le> (of_char c :: nat) \<and> (of_char c :: nat) \<le> 57)"

definition py_float :: "string \<Rightarrow> exn + rat" where
  "py_float s =
     (let ip = takeWhile is_digit s; rest = dropWhile is_digit s
      in case rest of
           [] \<Rightarrow> if ip = [] then Inl ValueError else Inr (of_nat (digits_val ip))
         | c # fp \<Rightarrow>
             if c = CHR ''.'' \<and> list_all is_digit fp \<and> (ip \<noteq> [] \<or> fp \<noteq> [])
             then Inr (of_nat (digits_val ip) + of_nat (digits_val fp) / 10 ^ length fp)
             else Inl ValueError)"

definition times :: "exn + rat \<Rightarrow> rat \<Rightarrow> exn + rat" where
  "times x f = (case x of Inl e \<Rightarrow> Inl e | Inr v \<Rightarrow> Inr (v * f))"

text \<open>The follower count that the \<open>if\<close>/\<open>elif\<close>/\<open>else\<close> chain parses, or the exception.\<close>

definition parse_follower_count :: "string \<Rightarrow> exn + rat" where
  "parse_follower_count follower_str =
     (if CHR ''k'' \<in> set follower_str
      then (case search_run_before CHR ''k'' [] follower_str of
              Some g \<Rightarrow> times (py_float g) 1000
            | None \<Rightarrow> Inr 0)
      else if CHR ''m'' \<in> set follower_str
      then (case search_run_before CHR ''m'' [] follower_str of
              Some g \<Rightarrow> times (py_float g) 1000000
            | None \<Rightarrow> Inr 0)
      else (case search_run follower_str of
              Some g \<Rightarrow> py_float g
            | None \<Rightarrow> Inr 0))"

text \<open>
  \<open>calculate_adoption_level\<close>. An exception inside the \<open>try\<close> block (only \<open>float\<close>
  can raise) gives \<open>'moderate_adopter'\<close>.
\<close>

definition calculate_adoption_level :: "pylib \<Rightarrow> row \<Rightarrow> string" where
  "calculate_adoption_level lib r =
     (let social_score =
            or_zero (to_numeric lib (row_get r ''current_social_presence_score'' (CInt 0)));
          content_freq =
            or_zero (to_numeric lib (row_get r ''content_frequency_score'' (CInt 0)));
          opportunity_score =
            or_zero (to_numeric lib (row_get r ''opportunity_score'' (CInt 0)));
          platform_scores =
            map (\<lambda>platform.
                   let presence = py_lower (py_str lib (row_get r platform (CStr ''none'')))
                   in dict_get score_map presence 0)
              platforms;
          avg_platform_score =
            (of_int (sum_list platform_scores) :: rat) / of_nat (length platform_scores);
          follower_str =
            py_lower (py_str lib (row_get r ''follower_count_estimate'' (CStr ''0'')))
      in case parse_follower_count follower_str of
           Inl e \<Rightarrow> ''moderate_adopter''
         | Inr follower_count \<Rightarrow>
             if fl_le social_score 3 \<and> avg_platform_score \<le> 1 / 2
                \<and> fl_le content_freq 3 \<and> follower_count < 1000
             then ''non_adopter''
             else if fl_ge social_score 4 \<and> avg_platform_score \<ge> 3 / 2
                     \<and> fl_ge content_freq 6 \<and> follower_count \<ge> 1000
                     \<and> fl_ge opportunity_score 60
             then ''high_volume_poor_results''
             else ''moderate_adopter'')"







definition adoption_rules :: "fl \<Rightarrow> rat \<Rightarrow> fl \<Rightarrow> rat \<Rightarrow> fl \<Rightarrow> string" where
  "adoption_rules social avg freq fol opp =
     (if fl_le social 3 \<and> avg \<le> 1 / 2 \<and> fl_le freq 3 \<and> fol < 1000
      then ''non_adopter''
      else if fl_ge social 4 \<and> avg \<ge> 3 / 2 \<and> fl_ge freq 6 \<and> fol \<ge> 1000 \<and> fl_ge opp 60
      then ''high_volume_poor_results''
      else ''moderate_adopter'')"




section \<open>LeadSegmenter: the segmentation pass\<close>

text \<open>
  \<open>validate_email\<close>: \<open>re.match\<close> of
  \<open>^[a-zA-Z0-9._%+-]+@[a-zA-Z0-9.-]+\.[a-zA-Z]{2,}\<close>. The local part is the
  maximal run of its class, since \<open>@\<close> is not in the class; after \<open>@\<close> some run of
  at least one character of the domain class is followed by a dot and two letters.
\<close>

definition is_alpha :: "char \<Rightarrow> bool" where
  "is_alpha c =
     ((65 \<le> (of_char c :: nat) \<and> (of_char c :: nat) \<le> 90)
      \<or> (97 \<le> (of_char c :: nat) \<and> (of_char c :: nat) \<le> 122))"

definition is_local_char :: "char \<Rightarrow> bool" where
  "is_local_char c = (is_alpha c \<or> is_digit c \<or> c \<in> set ''._%+-'')"

definition is_domain_char :: "char \<Rightarrow> bool" where
  "is_domain_char c = (is_alpha c \<or> is_digit c \<or> c \<in> set ''.-'')"

fun two_letters :: "string \<Rightarrow> bool" where
  "two_letters (a # b # rest) = (is_alpha a \<and> is_alpha b)"
| "two_letters s = False"

fun domain_and_tld :: "bool \<Rightarrow> string \<Rightarrow> bool" where
  "domain_and_tld seen [] = False"
| "domain_and_tld seen (c # cs) =
     ((seen \<and> c = CHR ''.'' \<and> two_letters cs)
      \<or> (is_domain_char c \<and> domain_and_tld True cs))"

definition validate_email :: "string \<Rightarrow> bool" where
  "validate_email email =
     (takeWhile is_local_char email \<noteq> []
      \<and> (case dropWhile is_local_char email of
            [] \<Rightarrow> False
          | c # rest \<Rightarrow> c = CHR ''@'' \<and> domain_and_tld False rest))"

text \<open>
  A table has its column names and its rows. Of pandas, reading a CSV file (by path and
  encoding, on the files as they stand) and sorting are taken as parameters; both may
  raise. The other operations the pass uses are written out below.
\<close>

record dataframe =
  columns :: "string list"
  rows :: "row list"

datatype encoding = Utf8 | Latin1

record pandas =
  read_csv :: "string \<Rightarrow> encoding \<Rightarrow> exn + dataframe"
  sort_values :: "string list \<Rightarrow> dataframe \<Rightarrow> exn + dataframe"

definition is_na :: "cell option \<Rightarrow> bool" where
  "is_na c = (c = None \<or> c = Some (CFloat NaN))"

text \<open>\<open>df.dropna(subset=cols)\<close>: \<open>KeyError\<close> for a column that is not there.\<close>

definition dropna :: "string list \<Rightarrow> dataframe \<Rightarrow> exn + dataframe" where
  "dropna cols df =
     (case filter (\<lambda>c. c \<notin> set (columns df)) cols of
        c # _ \<Rightarrow> Inl (KeyError c)
      | [] \<Rightarrow> Inr (df\<lparr>rows := filter (\<lambda>r. \<forall>c \<in> set cols. \<not> is_na (r c)) (rows df)\<rparr>))"

text \<open>
  \<open>df['email'].apply(self.validate_email)\<close> and the selection of the valid rows:
  \<open>re.match\<close> raises \<open>TypeError\<close> on a cell that is not a string.
\<close>

definition email_of :: "row \<Rightarrow> exn + string" where
  "email_of r = (case r ''email'' of Some (CStr s) \<Rightarrow> Inr s | _ \<Rightarrow> Inl TypeError)"

definition keep_valid_emails :: "dataframe \<Rightarrow> exn + dataframe" where
  "keep_valid_emails df =
     (if ''email'' \<notin> set (columns df) then Inl (KeyError ''email'')
      else case filter (\<lambda>r. isl (email_of r)) (rows df) of
             _ # _ \<Rightarrow> Inl TypeError
           | [] \<Rightarrow>
               Inr (df\<lparr>rows :=
                      filter (\<lambda>r. case email_of r of Inr s \<Rightarrow> validate_email s | Inl _ \<Rightarrow> False)
                        (rows df)\<rparr>))"

text \<open>\<open>df.drop_duplicates(subset=['email'], keep='first')\<close>.\<close>

fun first_by_email :: "cell option list \<Rightarrow> row list \<Rightarrow> row list" where
  "first_by_email seen [] = []"
| "first_by_email seen (r # rs) =
     (if r ''email'' \<in> set seen then first_by_email seen rs
      else r # first_by_email (r ''email'' # seen) rs)"

definition drop_duplicates :: "dataframe \<Rightarrow> dataframe" where
  "drop_duplicates df = df\<lparr>rows := first_by_email [] (rows df)\<rparr>"

text \<open>
  \<open>df['adoption_level'] = df.apply(self.calculate_adoption_level, axis=1)\<close>, for a
  table that has rows; what the assignment does with the result of \<open>apply\<close> on a table
  without rows depends on the version of pandas.
\<close>

definition classify :: "pylib \<Rightarrow> dataframe \<Rightarrow> dataframe" where
  "classify lib df =
     \<lparr>columns = (if ''adoption_level'' \<in> set (columns df) then columns df
                 else columns df @ [''adoption_level'']),
      rows = map (\<lambda>r. r(''adoption_level'' \<mapsto> CStr (calculate_adoption_level lib r)))
               (rows df)\<rparr>"

definition select_level :: "string \<Rightarrow> dataframe \<Rightarrow> dataframe" where
  "select_level level df =
     df\<lparr>rows := filter (\<lambda>r. r ''adoption_level'' = Some (CStr level)) (rows df)\<rparr>"

text \<open>
  Reading a file name from the \<open>Config\<close> object: \<open>AttributeError\<close> for a name that is not
  one of its fields. Only the fields that hold a string are looked up as file names.
\<close>

definition config_fields :: "string list" where
  "config_fields =
     [''num_batches'', ''concurrency_level'', ''leads_per_batch'', ''api_delay'',
      ''backup_interval'', ''max_retries'', ''retry_delay'', ''min_opportunity_score'',
      ''duplicate_check_enabled'', ''email_validation_enabled'', ''timestamp'',
      ''output_file'', ''backup_file'', ''progress_file'', ''premium_leads_file'',
      ''standard_leads_file'', ''emerging_leads_file'']"

definition config_strings :: "config \<Rightarrow> string \<rightharpoonup> string" where
  "config_strings cfg =
     [''timestamp'' \<mapsto> timestamp cfg,
      ''output_file'' \<mapsto> output_file cfg,
      ''backup_file'' \<mapsto> backup_file cfg,
      ''progress_file'' \<mapsto> progress_file cfg,
      ''premium_leads_file'' \<mapsto> premium_leads_file cfg,
      ''standard_leads_file'' \<mapsto> standard_leads_file cfg,
      ''emerging_leads_file'' \<mapsto> emerging_leads_file cfg]"

definition getattr_file :: "config \<Rightarrow> string \<Rightarrow> exn + string" where
  "getattr_file cfg attr =
     (if attr \<notin> set config_fields then Inl (AttributeError attr)
      else case config_strings cfg attr of
             Some path \<Rightarrow> Inr path
           | None \<Rightarrow> Inl TypeError)"

text \<open>
  The files written by the pass, in order: path and table. One group of
  \<open>_create_segmented_files\<close> selects the rows of a level, sorts them, then evaluates
  the file name and writes.
\<close>

type_synonym writes = "(string \<times> dataframe) list"

definition write_bucket ::
  "pandas \<Rightarrow> config \<Rightarrow> dataframe \<Rightarrow> string \<Rightarrow> string list \<Rightarrow> string \<Rightarrow> writes
   \<Rightarrow> exn option \<times> writes" where
  "write_bucket pd cfg df level cols attr ws =
     (case sort_values pd cols (select_level level df) of
        Inl e \<Rightarrow> (Some e, ws)
      | Inr sorted_df \<Rightarrow>
          (case getattr_file cfg attr of
             Inl e \<Rightarrow> (Some e, ws)
           | Inr path \<Rightarrow> (None, ws @ [(path, sorted_df)])))"

definition create_segmented_files ::
  "pandas \<Rightarrow> config \<Rightarrow> dataframe \<Rightarrow> writes \<Rightarrow> exn option \<times> writes" where
  "create_segmented_files pd cfg df ws =
     (case write_bucket pd cfg df ''non_adopter''
             [''opportunity_score'', ''contact_likelihood''] ''non_adopters_file'' ws of
        (Some e, ws1) \<Rightarrow> (Some e, ws1)
      | (None, ws1) \<Rightarrow>
          (case write_bucket pd cfg df ''moderate_adopter''
                  [''opportunity_score'', ''visual_content_suitability'']
                  ''moderate_adopters_file'' ws1 of
             (Some e, ws2) \<Rightarrow> (Some e, ws2)
           | (None, ws2) \<Rightarrow>
               write_bucket pd cfg df ''high_volume_poor_results''
                 [''opportunity_score''] ''high_volume_poor_results_file'' ws2))"

text \<open>
  \<open>_log_segmentation_stats\<close> evaluates the three bucket file names again for its log
  lines; the quality metrics are in a \<open>try\<close> of their own.
\<close>

definition log_segmentation_stats :: "config \<Rightarrow> exn option" where
  "log_segmentation_stats cfg =
     (case filter (\<lambda>a. isl (getattr_file cfg a))
             [''non_adopters_file'', ''moderate_adopters_file'',
              ''high_volume_poor_results_file''] of
        [] \<Rightarrow> None
      | a # _ \<Rightarrow> Some (AttributeError a))"

text \<open>The body of the \<open>try\<close> of \<open>segment_leads\<close>: the exception it ends with, if any, and the writes.\<close>

definition load_master :: "pandas \<Rightarrow> config \<Rightarrow> exn + dataframe" where
  "load_master pd cfg =
     (case read_csv pd (output_file cfg) Utf8 of
        Inl UnicodeDecodeError \<Rightarrow> read_csv pd (output_file cfg) Latin1
      | other \<Rightarrow> other)"

definition clean :: "dataframe \<Rightarrow> exn + dataframe" where
  "clean df =
     (case dropna [''name'', ''email'', ''current_social_presence_score''] df of
        Inl e \<Rightarrow> Inl e
      | Inr df1 \<Rightarrow>
          (case keep_valid_emails df1 of
             Inl e \<Rightarrow> Inl e
           | Inr df2 \<Rightarrow> Inr (drop_duplicates df2)))"

definition segment_body :: "pandas \<Rightarrow> pylib \<Rightarrow> config \<Rightarrow> exn option \<times> writes" where
  "segment_body pd lib cfg =
     (case load_master pd cfg of
        Inl e \<Rightarrow> (Some e, [])
      | Inr df0 \<Rightarrow>
          (case clean df0 of
             Inl e \<Rightarrow> (Some e, [])
           | Inr df1 \<Rightarrow>
               let df = classify lib df1
               in case create_segmented_files pd cfg df [] of
                    (Some e, ws) \<Rightarrow> (Some e, ws)
                  | (None, ws) \<Rightarrow>
                      (log_segmentation_stats cfg, ws @ [(output_file cfg, df)])))"

text \<open>
  \<open>segment_leads\<close>: what it logs at the end and the files it wrote. Every exception of
  the body is caught by \<open>except Exception\<close> and logged.
\<close>

datatype segmentation_log = PandasMissing | ErrorDuringSegmentation exn | SegmentationCompleted

definition segment_leads ::
  "bool \<Rightarrow> pandas \<Rightarrow> pylib \<Rightarrow> config \<Rightarrow> segmentation_log \<times> writes" where
  "segment_leads pandas_available pd lib cfg =
     (if \<not> pandas_available then (PandasMissing, [])
      else case segment_body pd lib cfg of
             (Some e, ws) \<Rightarrow> (ErrorDuringSegmentation e, ws)
           | (None, ws) \<Rightarrow> (SegmentationCompleted, ws))"

text \<open>A master file of one valid row, and a pandas that reads it and sorts nothing.\<close>

definition example_table :: dataframe where
  "example_table =
     \<lparr>columns = [''name'', ''email'', ''current_social_presence_score'',
                 ''follower_count_estimate''],
      rows = [[''name'' \<mapsto> CStr ''Acme Salon'', ''email'' \<mapsto> CStr ''info@acme.com'',
               ''current_social_presence_score'' \<mapsto> CInt 2,
               ''follower_count_estimate'' \<mapsto> CStr ''500'']]\<rparr>"

definition example_pandas :: pandas where
  "example_pandas = \<lparr>read_csv = (\<lambda>path enc. Inr example_table), sort_values = (\<lambda>cols df. Inr df)\<rparr>"

definition example_lib :: pylib where
  "example_lib = \<lparr>str_to_numeric = (\<lambda>s. NaN), float_repr = (\<lambda>f. ''nan'')\<rparr>"

definition empty_world :: world where
  "empty_world = \<lparr>master_csv = header, backup_writes = [], gathered = []\<rparr>"


section \<open>Facts about strings\<close>

lemma char_of_eq_iff_nat: "(char_of (n::nat) = c) = (n mod 256 = of_char c)"
  by (metis of_char_of char_of_char)

lemma lower_char_Char:
  "lower_char (Char b0 b1 b2 b3 b4 b5 b6 b7) =
     (let n = (of_char (Char b0 b1 b2 b3 b4 b5 b6 b7) :: nat)
      in if (65 \<le> n \<and> n \<le> 90) \<or> (192 \<le> n \<and> n \<le> 222 \<and> n \<noteq> 215)
         then Char b0 b1 b2 b3 b4 True b6 b7 else Char b0 b1 b2 b3 b4 b5 b6 b7)"
  by (cases b0; cases b1; cases b2; cases b3; cases b4; cases b5; cases b6; cases b7)
     (simp_all add: lower_char_def char_of_eq_iff_nat)

lemma lower_char_idem: "lower_char (lower_char c) = lower_char c"
  unfolding lower_char_def Let_def by (auto simp add: of_char_of)




lemma py_lower_idem: "py_lower (py_lower s) = py_lower s"
  by (simp add: py_lower_def lower_char_idem)













lemma startswith_append: "startswith (p @ s) p"
  by (simp add: startswith_def)


lemmas eval_string =
  extract_domain_def sub_protocol_def sub_www_def startswith_def py_lower_def
  lower_char_Char py_strip_def py_isspace_def newline_def




section \<open>Facts about the duplicate filter\<close>

lemmas eval_filter = parse_and_filter_batch_def batch_loop_def filter_line_def line_parts_def
  line_name_def line_email_def line_domain_def init_generator_def kept_lines_def
  parseable_def collides_def

lemma filter_line_dup:
  "parseable line \<Longrightarrow> collides self line \<Longrightarrow>
   filter_line line (self, fl, d) = (self, fl, d + 1)"
  by (auto simp add: filter_line_def parseable_def collides_def Let_def)

lemma filter_line_fresh:
  "parseable line \<Longrightarrow> \<not> collides self line \<Longrightarrow>
   filter_line line (self, fl, d) =
     (self\<lparr>generated_emails := insert (line_email line) (generated_emails self),
           generated_names := insert (line_name line) (generated_names self),
           generated_domains :=
             (if line_domain line \<noteq> [] then insert (line_domain line) (generated_domains self)
              else generated_domains self)\<rparr>,
      fl @ [line], d)"
  by (simp add: filter_line_def parseable_def collides_def Let_def)

lemma filter_line_skip:
  "\<not> parseable line \<Longrightarrow> filter_line line acc = acc"
  by (auto simp add: filter_line_def parseable_def split: prod.splits)

text \<open>The key sets only grow, and the other fields are left alone by the loop.\<close>

lemma filter_line_mono:
  assumes "filter_line line (self, fl, d) = (self', fl', d')"
  shows "generated_emails self \<subseteq> generated_emails self'
    \<and> generated_names self \<subseteq> generated_names self'
    \<and> generated_domains self \<subseteq> generated_domains self'
    \<and> stats self' = stats self \<and> backup_data self' = backup_data self"
proof (cases "parseable line")
  case False
  with assms show ?thesis by (simp add: filter_line_skip)
next
  case True
  show ?thesis
  proof (cases "collides self line")
    case True
    with \<open>parseable line\<close> assms show ?thesis by (simp add: filter_line_dup)
  next
    case False
    with \<open>parseable line\<close> assms show ?thesis by (auto simp add: filter_line_fresh)
  qed
qed

lemma fold_filter_line_mono:
  "fold filter_line lines (self, fl, d) = (self', fl', d') \<Longrightarrow>
   generated_emails self \<subseteq> generated_emails self'
    \<and> generated_names self \<subseteq> generated_names self'
    \<and> generated_domains self \<subseteq> generated_domains self'
    \<and> stats self' = stats self \<and> backup_data self' = backup_data self"
proof (induction lines arbitrary: self fl d)
  case Nil
  then show ?case by simp
next
  case (Cons line lines)
  obtain s1 f1 d1 where step: "filter_line line (self, fl, d) = (s1, f1, d1)"
    by (cases "filter_line line (self, fl, d)") auto
  with Cons.prems have "fold filter_line lines (s1, f1, d1) = (self', fl', d')" by simp
  from Cons.IH [OF this] filter_line_mono [OF step] show ?case by auto
qed

lemma parse_and_filter_batch_mono:
  assumes "parse_and_filter_batch self batch_data = (text, self')"
  shows "generated_emails self \<subseteq> generated_emails self'
    \<and> generated_names self \<subseteq> generated_names self'
    \<and> generated_domains self \<subseteq> generated_domains self'
    \<and> backup_data self' = backup_data self
    \<and> completed_batches (stats self') = completed_batches (stats self)
    \<and> failed_batches (stats self') = failed_batches (stats self)
    \<and> total_leads_generated (stats self') = total_leads_generated (stats self)"
proof (cases "batch_data = []")
  case True
  with assms show ?thesis by (simp add: parse_and_filter_batch_def)
next
  case False
  obtain s1 f1 d1 where loop: "batch_loop self batch_data = (s1, f1, d1)"
    by (cases "batch_loop self batch_data") auto
  from loop have m: "generated_emails self \<subseteq> generated_emails s1
    \<and> generated_names self \<subseteq> generated_names s1
    \<and> generated_domains self \<subseteq> generated_domains s1
    \<and> stats s1 = stats self \<and> backup_data s1 = backup_data self"
    unfolding batch_loop_def by (rule fold_filter_line_mono)
  from assms False loop have "self' = (if d1 > 0
       then s1\<lparr>stats := (stats s1)
              \<lparr>duplicates_prevented := duplicates_prevented (stats s1) + d1\<rparr>\<rparr>
       else s1)"
    by (auto simp add: parse_and_filter_batch_def)
  with m show ?thesis by auto
qed

lemma fold_two_fresh_dup:
  assumes "parseable l1" "\<not> collides self l1" "parseable l2"
    "line_email l2 \<in> generated_emails self"
  shows "fst (snd (fold filter_line [l1, l2] (self, [], 0))) = [l1]
     \<and> snd (snd (fold filter_line [l1, l2] (self, [], 0))) = 1"
proof -
  let ?s1 = "self\<lparr>generated_emails := insert (line_email l1) (generated_emails self),
           generated_names := insert (line_name l1) (generated_names self),
           generated_domains :=
             (if line_domain l1 \<noteq> [] then insert (line_domain l1) (generated_domains self)
              else generated_domains self)\<rparr>"
  have 1: "filter_line l1 (self, [], 0) = (?s1, [l1], 0)"
    using assms(1,2) by (simp add: filter_line_fresh)
  have "collides ?s1 l2" using assms(4) by (simp add: collides_def)
  then have "filter_line l2 (?s1, [l1], 0) = (?s1, [l1], 1)"
    using assms(3) by (simp add: filter_line_dup)
  with 1 show ?thesis by simp
qed

text \<open>
  C2 (amended). For every loop state and every line that the loop evaluates (not blank,
  not a header, at least three comma-separated fields): when its lowercased email, its
  lowercased name or its extracted domain is already in the state, the line is dropped,
  the duplicate count goes up by one and the state is unchanged; otherwise the line is
  kept, the count is unchanged, and the email and the name are registered, the domain
  only when it is not empty. A fresh line followed by a line whose email is already in
  the state gives the fresh line alone and a count of 1, as on the concrete text.
\<close>

theorem filter_line_drops_iff_collision:
  "(parseable line \<and> collides self line \<longrightarrow>
      filter_line line (self, fl, d) = (self, fl, d + 1))
   \<and> (parseable line \<and> \<not> collides self line \<longrightarrow>
      (\<exists>self'. filter_line line (self, fl, d) = (self', fl @ [line], d)
         \<and> generated_emails self' = insert (line_email line) (generated_emails self)
         \<and> generated_names self' = insert (line_name line) (generated_names self)
         \<and> generated_domains self' =
             (if line_domain line = [] then generated_domains self
              else insert (line_domain line) (generated_domains self))
         \<and> stats self' = stats self \<and> backup_data self' = backup_data self))
   \<and> (parseable l1 \<and> \<not> collides self l1 \<and> parseable l2
        \<and> line_email l2 \<in> generated_emails self \<longrightarrow>
      fst (snd (fold filter_line [l1, l2] (self, [], 0))) = [l1]
      \<and> snd (snd (fold filter_line [l1, l2] (self, [], 0))) = 1)
   \<and> (parse_and_filter_batch (init_generator\<lparr>generated_emails := {''info@acme.com''}\<rparr>)
          (''Bolt Gym,hello@bolt.io,https://www.bolt.io/join,fitness'' @ [newline]
            @ ''Acme Salon,Info@Acme.com,acme.com,beauty'')
        = (''Bolt Gym,hello@bolt.io,https://www.bolt.io/join,fitness'',
           init_generator
             \<lparr>generated_emails := {''hello@bolt.io'', ''info@acme.com''},
              generated_names := {''bolt gym''},
              generated_domains := {''bolt.io''},
              stats := (stats init_generator)\<lparr>duplicates_prevented := 1\<rparr>\<rparr>))"
proof (intro conjI impI)
  assume "parseable line \<and> collides self line"
  then show "filter_line line (self, fl, d) = (self, fl, d + 1)"
    by (simp add: filter_line_dup)
next
  assume "parseable line \<and> \<not> collides self line"
  then show "\<exists>self'. filter_line line (self, fl, d) = (self', fl @ [line], d)
         \<and> generated_emails self' = insert (line_email line) (generated_emails self)
         \<and> generated_names self' = insert (line_name line) (generated_names self)
         \<and> generated_domains self' =
             (if line_domain line = [] then generated_domains self
              else insert (line_domain line) (generated_domains self))
         \<and> stats self' = stats self \<and> backup_data self' = backup_data self"
    by (simp add: filter_line_fresh)
next
  assume a: "parseable l1 \<and> \<not> collides self l1 \<and> parseable l2
        \<and> line_email l2 \<in> generated_emails self"
  then show "fst (snd (fold filter_line [l1, l2] (self, [], 0))) = [l1]"
    using fold_two_fresh_dup [of l1 self l2] by blast
  from a show "snd (snd (fold filter_line [l1, l2] (self, [], 0))) = 1"
    using fold_two_fresh_dup [of l1 self l2] by blast
next
  show "parse_and_filter_batch (init_generator\<lparr>generated_emails := {''info@acme.com''}\<rparr>)
          (''Bolt Gym,hello@bolt.io,https://www.bolt.io/join,fitness'' @ [newline]
            @ ''Acme Salon,Info@Acme.com,acme.com,beauty'')
        = (''Bolt Gym,hello@bolt.io,https://www.bolt.io/join,fitness'',
           init_generator
             \<lparr>generated_emails := {''hello@bolt.io'', ''info@acme.com''},
              generated_names := {''bolt gym''},
              generated_domains := {''bolt.io''},
              stats := (stats init_generator)\<lparr>duplicates_prevented := 1\<rparr>\<rparr>)"
    by (simp add: eval_filter eval_string Let_def)
qed

theorem filter_line_drops_iff_collision_witness:
  "parseable ''Acme Salon,Info@Acme.com,acme.com,beauty''
   \<and> collides (init_generator\<lparr>generated_emails := {''info@acme.com''}\<rparr>)
        ''Acme Salon,Info@Acme.com,acme.com,beauty''
   \<and> filter_line ''Acme Salon,Info@Acme.com,acme.com,beauty''
        (init_generator\<lparr>generated_emails := {''info@acme.com''}\<rparr>, [], 0)
       = (init_generator\<lparr>generated_emails := {''info@acme.com''}\<rparr>, [], 1)
   \<and> parseable ''Bolt Gym,hello@bolt.io,bolt.io,fitness''
   \<and> \<not> collides (init_generator\<lparr>generated_emails := {''info@acme.com''}\<rparr>)
        ''Bolt Gym,hello@bolt.io,bolt.io,fitness''
   \<and> line_email ''Acme Salon,Info@Acme.com,acme.com,beauty''
        \<in> generated_emails (init_generator\<lparr>generated_emails := {''info@acme.com''}\<rparr>)
   \<and> fst (snd (filter_line ''Bolt Gym,hello@bolt.io,bolt.io,fitness''
        (init_generator\<lparr>generated_emails := {''info@acme.com''}\<rparr>, [], 0)))
       = [''Bolt Gym,hello@bolt.io,bolt.io,fitness'']
   \<and> fst (snd (fold filter_line
        [''Bolt Gym,hello@bolt.io,bolt.io,fitness'', ''Acme Salon,Info@Acme.com,acme.com,beauty'']
        (init_generator\<lparr>generated_emails := {''info@acme.com''}\<rparr>, [], 0)))
       = [''Bolt Gym,hello@bolt.io,bolt.io,fitness'']
   \<and> snd (snd (fold filter_line
        [''Bolt Gym,hello@bolt.io,bolt.io,fitness'', ''Acme Salon,Info@Acme.com,acme.com,beauty'']
        (init_generator\<lparr>generated_emails := {''info@acme.com''}\<rparr>, [], 0))) = 1"
proof -
  let ?seen = "init_generator\<lparr>generated_emails := {''info@acme.com''}\<rparr>"
  let ?dup = "''Acme Salon,Info@Acme.com,acme.com,beauty''"
  let ?fresh = "''Bolt Gym,hello@bolt.io,bolt.io,fitness''"
  have p1: "parseable ?dup" by (simp add: eval_filter eval_string)
  have c1: "collides ?seen ?dup" by (simp add: eval_filter eval_string)
  have e1: "line_email ?dup \<in> generated_emails ?seen" by (simp add: eval_filter eval_string)
  have p2: "parseable ?fresh" by (simp add: eval_filter eval_string)
  have c2: "\<not> collides ?seen ?fresh" by (simp add: eval_filter eval_string)
  note a = filter_line_drops_iff_collision [of ?dup ?seen "[]" 0 ?fresh ?dup]
  note b = filter_line_drops_iff_collision [of ?fresh ?seen "[]" 0 ?fresh ?dup]
  from a p1 c1 have r1: "filter_line ?dup (?seen, [], 0) = (?seen, [], 1)" by simp
  from b p2 c2 obtain self' where "filter_line ?fresh (?seen, [], 0) = (self', [] @ [?fresh], 0)"
    by blast
  then have r2: "fst (snd (filter_line ?fresh (?seen, [], 0))) = [?fresh]" by simp
  from a p1 p2 c2 e1 have r3:
    "fst (snd (fold filter_line [?fresh, ?dup] (?seen, [], 0))) = [?fresh]
     \<and> snd (snd (fold filter_line [?fresh, ?dup] (?seen, [], 0))) = 1"
    by blast
  from p1 c1 r1 p2 c2 e1 r2 r3 show ?thesis by blast
qed

theorem filter_line_registers_all_keys_counterexample:
  "parseable ''acme,info@acme.com,''
   \<and> \<not> collides init_generator ''acme,info@acme.com,''
   \<and> fst (snd (filter_line ''acme,info@acme.com,'' (init_generator, [], 0)))
        = [''acme,info@acme.com,'']
   \<and> line_domain ''acme,info@acme.com,''
        \<notin> generated_domains (fst (filter_line ''acme,info@acme.com,'' (init_generator, [], 0)))"
  by (simp add: eval_filter eval_string Let_def)

lemma filter_line_inv:
  assumes inv: "accepted_unique (k0 @ fl)" "keys_registered (k0 @ fl) self"
    and step: "filter_line line (self, fl, d) = (self', fl', d')"
  shows "accepted_unique (k0 @ fl') \<and> keys_registered (k0 @ fl') self'"
proof (cases "parseable line")
  case False
  with step inv show ?thesis by (simp add: filter_line_skip)
next
  case True
  show ?thesis
  proof (cases "collides self line")
    case True
    with \<open>parseable line\<close> step inv show ?thesis by (simp add: filter_line_dup)
  next
    case False
    with \<open>parseable line\<close> step have fl': "fl' = fl @ [line]"
      and e: "generated_emails self' = insert (line_email line) (generated_emails self)"
      and n: "generated_names self' = insert (line_name line) (generated_names self)"
      and dm: "generated_domains self' =
             (if line_domain line \<noteq> [] then insert (line_domain line) (generated_domains self)
              else generated_domains self)"
      by (auto simp add: filter_line_fresh)
    from False have fresh: "line_email line \<notin> generated_emails self"
      "line_name line \<notin> generated_names self" "line_domain line \<notin> generated_domains self"
      by (simp_all add: collides_def)
    from inv(2) fresh have new: "line_email line \<notin> line_email ` set (k0 @ fl)"
      "line_name line \<notin> line_name ` set (k0 @ fl)"
      "line_domain line \<noteq> [] \<longrightarrow> line_domain line \<notin> line_domain ` set (k0 @ fl)"
      unfolding keys_registered_def by blast+
    have u: "accepted_unique (k0 @ fl')"
      using inv(1) new unfolding accepted_unique_def fl' by auto
    have r: "keys_registered (k0 @ fl') self'"
      using inv(2) unfolding keys_registered_def fl' e n dm by auto
    from u r show ?thesis by simp
  qed
qed

lemma fold_filter_line_inv:
  "accepted_unique (k0 @ fl) \<Longrightarrow> keys_registered (k0 @ fl) self \<Longrightarrow>
   fold filter_line lines (self, fl, d) = (self', fl', d') \<Longrightarrow>
   accepted_unique (k0 @ fl') \<and> keys_registered (k0 @ fl') self'"
proof (induction lines arbitrary: self fl d)
  case Nil
  then show ?case by simp
next
  case (Cons line lines)
  obtain s1 f1 d1 where step: "filter_line line (self, fl, d) = (s1, f1, d1)"
    by (cases "filter_line line (self, fl, d)") auto
  with Cons.prems have rest: "fold filter_line lines (s1, f1, d1) = (self', fl', d')" by simp
  from filter_line_inv [OF Cons.prems(1) Cons.prems(2) step]
  have "accepted_unique (k0 @ f1)" "keys_registered (k0 @ f1) s1" by simp_all
  from Cons.IH [OF this rest] show ?case .
qed

lemma parse_and_filter_batch_keys:
  "batch_data \<noteq> [] \<Longrightarrow>
   generated_emails (snd (parse_and_filter_batch self batch_data))
     = generated_emails (fst (batch_loop self batch_data))
   \<and> generated_names (snd (parse_and_filter_batch self batch_data))
     = generated_names (fst (batch_loop self batch_data))
   \<and> generated_domains (snd (parse_and_filter_batch self batch_data))
     = generated_domains (fst (batch_loop self batch_data))"
  by (cases "batch_loop self batch_data") (simp add: parse_and_filter_batch_def)

lemma keys_registered_cong:
  "generated_emails a = generated_emails b \<Longrightarrow> generated_names a = generated_names b \<Longrightarrow>
   generated_domains a = generated_domains b \<Longrightarrow>
   keys_registered kept a = keys_registered kept b"
  by (simp add: keys_registered_def)

lemma batch_inv:
  assumes "accepted_unique kept" "keys_registered kept self"
  shows "accepted_unique (kept @ kept_lines self batch_data)
    \<and> keys_registered (kept @ kept_lines self batch_data)
         (snd (parse_and_filter_batch self batch_data))"
proof (cases "batch_data = []")
  case True
  with assms show ?thesis by (simp add: kept_lines_def parse_and_filter_batch_def)
next
  case False
  obtain s1 f1 d1 where loop: "batch_loop self batch_data = (s1, f1, d1)"
    by (cases "batch_loop self batch_data") auto
  from assms have "accepted_unique (kept @ [])" "keys_registered (kept @ []) self" by simp_all
  from fold_filter_line_inv [OF this loop [unfolded batch_loop_def]]
  have i: "accepted_unique (kept @ f1)" "keys_registered (kept @ f1) s1" by simp_all
  have k: "kept_lines self batch_data = f1" using False loop by (simp add: kept_lines_def)
  have "keys_registered (kept @ f1) (snd (parse_and_filter_batch self batch_data))
      = keys_registered (kept @ f1) s1"
    by (rule keys_registered_cong)
      (simp_all add: parse_and_filter_batch_keys [OF False] loop)
  with i k show ?thesis by simp
qed

lemma filter_run_inv:
  "accepted_unique kept \<Longrightarrow> keys_registered kept self \<Longrightarrow>
   filter_run batches (kept, self) = (kept', self') \<Longrightarrow>
   accepted_unique kept' \<and> keys_registered kept' self'"
proof (induction batches arbitrary: kept self)
  case Nil
  then show ?case by simp
next
  case (Cons b batches)
  from batch_inv [OF Cons.prems(1) Cons.prems(2), of b]
  have "accepted_unique (kept @ kept_lines self b)"
    "keys_registered (kept @ kept_lines self b) (snd (parse_and_filter_batch self b))"
    by simp_all
  from Cons.IH [OF this] Cons.prems(3) show ?case by simp
qed

lemma filter_run_mono:
  "filter_run batches (kept, self) = (kept', self') \<Longrightarrow>
   generated_emails self \<subseteq> generated_emails self'
    \<and> generated_names self \<subseteq> generated_names self'
    \<and> generated_domains self \<subseteq> generated_domains self'
    \<and> (\<exists>more. kept' = kept @ more)"
proof (induction batches arbitrary: kept self)
  case Nil
  then show ?case by simp
next
  case (Cons b batches)
  obtain t s1 where p: "parse_and_filter_batch self b = (t, s1)"
    by (cases "parse_and_filter_batch self b") auto
  with Cons.prems have "filter_run batches (kept @ kept_lines self b, s1) = (kept', self')"
    by simp
  from Cons.IH [OF this] parse_and_filter_batch_mono [OF p] show ?case by auto
qed



section \<open>Facts about the key rotator\<close>

lemma healthy_index_update [simp]:
  "healthy (self\<lparr>current_key_index := i\<rparr>) k = healthy self k"
  by (simp add: healthy_def)

lemma get_current_key_in_range:
  "current_key_index self < length (api_keys self) \<Longrightarrow>
   get_current_key self = Inr (api_keys self ! current_key_index self)"
  by (auto simp add: get_current_key_def)

text \<open>
  The scan in a non-empty pool never raises and leaves everything but the index alone; it
  stops on a healthy key, or every key it passed is unhealthy and the index has advanced
  by the number of steps.
\<close>

lemma find_next_healthy_scan:
  assumes "api_keys self \<noteq> []"
  shows "\<exists>self'. find_next_healthy (Suc k) self = Inr self'
     \<and> self' = self\<lparr>current_key_index := current_key_index self'\<rparr>
     \<and> current_key_index self' < length (api_keys self)
     \<and> (healthy self (api_keys self ! current_key_index self')
        \<or> ((\<forall>j. 1 \<le> j \<and> j \<le> Suc k \<longrightarrow>
               \<not> healthy self
                   (api_keys self ! ((current_key_index self + j) mod length (api_keys self))))
            \<and> current_key_index self'
                = (current_key_index self + Suc k) mod length (api_keys self)))"
  using assms
proof (induction k arbitrary: self)
  case 0
  let ?n = "length (api_keys self)"
  let ?s1 = "self\<lparr>current_key_index := (current_key_index self + 1) mod ?n\<rparr>"
  from 0 have lt: "(current_key_index self + 1) mod ?n < ?n" by simp
  then have g: "get_current_key ?s1 = Inr (api_keys self ! ((current_key_index self + 1) mod ?n))"
    by (simp add: get_current_key_in_range)
  have "find_next_healthy (Suc 0) self = Inr ?s1"
    using g by (simp add: Let_def)
  moreover have "healthy self (api_keys self ! current_key_index ?s1)
     \<or> ((\<forall>j. 1 \<le> j \<and> j \<le> Suc 0 \<longrightarrow>
               \<not> healthy self (api_keys self ! ((current_key_index self + j) mod ?n)))
         \<and> current_key_index ?s1 = (current_key_index self + Suc 0) mod ?n)"
  proof (cases "healthy self (api_keys self ! ((current_key_index self + 1) mod ?n))")
    case True
    then show ?thesis by simp
  next
    case False
    have "\<And>j. 1 \<le> j \<and> j \<le> Suc 0 \<Longrightarrow> j = 1" by simp
    with False show ?thesis by auto
  qed
  ultimately show ?case using lt by (intro exI [of _ ?s1]) simp
next
  case (Suc k)
  let ?n = "length (api_keys self)"
  let ?i = "current_key_index self"
  let ?s1 = "self\<lparr>current_key_index := (?i + 1) mod ?n\<rparr>"
  from Suc.prems have lt: "(?i + 1) mod ?n < ?n" by simp
  then have g: "get_current_key ?s1 = Inr (api_keys self ! ((?i + 1) mod ?n))"
    by (simp add: get_current_key_in_range)
  show ?case
  proof (cases "healthy self (api_keys self ! ((?i + 1) mod ?n))")
    case True
    then have "find_next_healthy (Suc (Suc k)) self = Inr ?s1"
      using g by (simp add: Let_def healthy_def)
    with True lt show ?thesis by (intro exI [of _ ?s1]) simp
  next
    case False
    then have rec: "find_next_healthy (Suc (Suc k)) self = find_next_healthy (Suc k) ?s1"
      using g by (simp add: Let_def healthy_def)
    from Suc.prems have "api_keys ?s1 \<noteq> []" by simp
    from Suc.IH [OF this] obtain s2 where s2:
      "find_next_healthy (Suc k) ?s1 = Inr s2"
      "s2 = ?s1\<lparr>current_key_index := current_key_index s2\<rparr>"
      "current_key_index s2 < ?n"
      "healthy self (api_keys self ! current_key_index s2)
        \<or> ((\<forall>j. 1 \<le> j \<and> j \<le> Suc k \<longrightarrow>
               \<not> healthy self (api_keys self ! (((?i + 1) mod ?n + j) mod ?n)))
            \<and> current_key_index s2 = ((?i + 1) mod ?n + Suc k) mod ?n)"
      by auto
    have shift: "\<And>j. ((?i + 1) mod ?n + j) mod ?n = (?i + Suc j) mod ?n"
      by (simp add: mod_add_left_eq)
    have upd: "s2 = self\<lparr>current_key_index := current_key_index s2\<rparr>"
      using s2(2) by (metis rotator.update_convs(2) rotator.surjective)
    have "healthy self (api_keys self ! current_key_index s2)
        \<or> ((\<forall>j. 1 \<le> j \<and> j \<le> Suc (Suc k) \<longrightarrow>
               \<not> healthy self (api_keys self ! ((?i + j) mod ?n)))
            \<and> current_key_index s2 = (?i + Suc (Suc k)) mod ?n)"
    proof (cases "healthy self (api_keys self ! current_key_index s2)")
      case True
      then show ?thesis by simp
    next
      case nh: False
      with s2(4) have b: "(\<forall>j. 1 \<le> j \<and> j \<le> Suc k \<longrightarrow>
               \<not> healthy self (api_keys self ! (((?i + 1) mod ?n + j) mod ?n)))
            \<and> current_key_index s2 = ((?i + 1) mod ?n + Suc k) mod ?n"
        by blast
      from b [unfolded shift] have all: "\<forall>j. 1 \<le> j \<and> j \<le> Suc k \<longrightarrow>
               \<not> healthy self (api_keys self ! ((?i + Suc j) mod ?n))"
        and idx: "current_key_index s2 = (?i + Suc (Suc k)) mod ?n"
        by blast+
      have "\<not> healthy self (api_keys self ! ((?i + j) mod ?n))"
        if j: "1 \<le> j \<and> j \<le> Suc (Suc k)" for j
      proof (cases "j = 1")
        case True
        with False show ?thesis by simp
      next
        case False
        with j obtain j' where "j = Suc j'" "1 \<le> j'" "j' \<le> Suc k"
          by (cases j) auto
        with all show ?thesis by simp
      qed
      with idx show ?thesis by blast
    qed
    with rec s2(1) s2(3) upd show ?thesis by (intro exI [of _ s2]) simp
  qed
qed

lemma circular_reach:
  assumes "m < n" "i < (n::nat)"
  shows "\<exists>j. 1 \<le> j \<and> j \<le> n \<and> (i + j) mod n = m"
proof (cases "m = i")
  case True
  with assms show ?thesis by (intro exI [of _ n]) simp
next
  case False
  let ?j = "(m + n - i) mod n"
  have "(i + ?j) mod n = (i + (m + n - i)) mod n" by (simp add: mod_add_right_eq)
  also have "\<dots> = (m + n) mod n" using assms by simp
  also have "\<dots> = m" using assms by simp
  finally have r: "(i + ?j) mod n = m" .
  have "?j \<noteq> 0"
  proof
    assume "?j = 0"
    with r have "i mod n = m" by simp
    with assms False show False by simp
  qed
  moreover have "?j \<le> n" using assms by (simp add: less_imp_le)
  ultimately show ?thesis using r by (intro exI [of _ ?j]) simp
qed

lemma scan_all_unhealthy:
  assumes n: "api_keys self \<noteq> []" and i: "current_key_index self < length (api_keys self)"
    and all: "\<forall>j. 1 \<le> j \<and> j \<le> length (api_keys self) \<longrightarrow>
       \<not> healthy self
           (api_keys self ! ((current_key_index self + j) mod length (api_keys self)))"
  shows "\<forall>k' \<in> set (api_keys self). \<not> healthy self k'"
proof
  fix k' assume "k' \<in> set (api_keys self)"
  then obtain m where m: "m < length (api_keys self)" "api_keys self ! m = k'"
    by (auto simp add: in_set_conv_nth)
  from circular_reach [OF m(1) i] obtain j where
    "1 \<le> j" "j \<le> length (api_keys self)"
    "(current_key_index self + j) mod length (api_keys self) = m"
    by blast
  with all m(2) show "\<not> healthy self k'" by auto
qed

text \<open>
  C7. In a non-empty pool whose index is in range, \<open>rotate_key\<close> returns a key of the
  pool, the one at the index it leaves behind, and changes nothing but the index. If any
  key of the pool has an error count below the cap, so has the returned key. If no key
  has, the index stays where it was. With exactly one key the rotator is unchanged and
  that key is returned, whatever the counts.
\<close>

theorem rotate_key_selects_healthy_if_any:
  assumes "api_keys self \<noteq> []" and "current_key_index self < length (api_keys self)"
  shows "\<exists>k self'. rotate_key self rnd = (Inr k, self')
     \<and> self' = self\<lparr>current_key_index := current_key_index self'\<rparr>
     \<and> current_key_index self' < length (api_keys self)
     \<and> k = api_keys self ! current_key_index self'
     \<and> ((\<exists>k' \<in> set (api_keys self). healthy self k') \<longrightarrow> healthy self k)
     \<and> ((\<forall>k' \<in> set (api_keys self). \<not> healthy self k') \<longrightarrow>
          current_key_index self' = current_key_index self)
     \<and> (length (api_keys self) = 1 \<longrightarrow> self' = self \<and> k = api_keys self ! 0)"
proof -
  let ?n = "length (api_keys self)"
  let ?i = "current_key_index self"
  let ?cur = "api_keys self ! ?i"
  have g: "get_current_key self = Inr ?cur"
    using assms(2) by (rule get_current_key_in_range)
  show ?thesis
  proof (cases "?n = 1")
    case True
    with assms(2) have i0: "?i = 0" by simp
    from True have r: "rotate_key self rnd = (Inr ?cur, self)"
      by (simp add: rotate_key_def g)
    from True obtain k0 where k0: "api_keys self = [k0]"
      by (cases "api_keys self") auto
    have "(\<exists>k' \<in> set (api_keys self). healthy self k') \<longrightarrow> healthy self ?cur"
      using k0 i0 by simp
    with r i0 assms(2) show ?thesis
      by (intro exI [of _ ?cur] exI [of _ self]) simp
  next
    case n1: False
    show ?thesis
    proof (cases "dict_get (key_usage_count self) ?cur 0 \<ge> max_requests_per_key self
                   \<or> dict_get (key_error_count self) ?cur 0 \<ge> max_errors_per_key self
                   \<or> rnd < 5 / 100")
      case False
      then have r: "rotate_key self rnd = (Inr ?cur, self)"
        using n1 by (simp add: rotate_key_def g Let_def)
      from False have h: "healthy self ?cur" by (simp add: healthy_def)
      from h assms(2) have "\<not> (\<forall>k' \<in> set (api_keys self). \<not> healthy self k')"
        using nth_mem by blast
      with r h n1 assms(2) show ?thesis
        by (intro exI [of _ ?cur] exI [of _ self]) simp
    next
      case True
      from assms(1) obtain k where nk: "?n = Suc k" by (cases "api_keys self") auto
      from find_next_healthy_scan [OF assms(1), of k] nk obtain s1 where s1:
        "find_next_healthy ?n self = Inr s1"
        "s1 = self\<lparr>current_key_index := current_key_index s1\<rparr>"
        "current_key_index s1 < ?n"
        "healthy self (api_keys self ! current_key_index s1)
          \<or> ((\<forall>j. 1 \<le> j \<and> j \<le> ?n \<longrightarrow>
               \<not> healthy self (api_keys self ! ((?i + j) mod ?n)))
              \<and> current_key_index s1 = (?i + ?n) mod ?n)"
        by auto
      from arg_cong [OF s1(2), of api_keys] have keys1: "api_keys s1 = api_keys self"
        by simp
      with s1(3) have g1: "get_current_key s1 = Inr (api_keys self ! current_key_index s1)"
        using get_current_key_in_range [of s1] by simp
      from True n1 s1(1) g1 have r:
        "rotate_key self rnd = (Inr (api_keys self ! current_key_index s1), s1)"
        by (simp add: rotate_key_def g Let_def)
      have a: "(\<exists>k' \<in> set (api_keys self). healthy self k') \<longrightarrow>
          healthy self (api_keys self ! current_key_index s1)"
        using s1(4) scan_all_unhealthy [OF assms] by blast
      have b: "(\<forall>k' \<in> set (api_keys self). \<not> healthy self k') \<longrightarrow>
          current_key_index s1 = ?i"
      proof
        assume u: "\<forall>k' \<in> set (api_keys self). \<not> healthy self k'"
        from s1(3) have "api_keys self ! current_key_index s1 \<in> set (api_keys self)"
          by simp
        with u have "\<not> healthy self (api_keys self ! current_key_index s1)" by blast
        with s1(4) have "current_key_index s1 = (?i + ?n) mod ?n" by blast
        with assms(2) show "current_key_index s1 = ?i" by simp
      qed
      from n1 have c: "length (api_keys self) = 1 \<longrightarrow>
          s1 = self \<and> api_keys self ! current_key_index s1 = api_keys self ! 0"
        by simp
      from r s1(2) s1(3) a b c show ?thesis by blast
    qed
  qed
qed

lemmas eval_rotator = rotate_key_def get_current_key_def dict_get_def healthy_def Let_def

theorem rotate_key_selects_healthy_if_any_witness:
  "api_keys \<lparr>api_keys = [''k0'', ''k1'', ''k2''], current_key_index = 0,
       key_usage_count = Map.empty, key_error_count = [''k0'' \<mapsto> 5, ''k1'' \<mapsto> 7],
       max_requests_per_key = 150, max_errors_per_key = 5\<rparr> \<noteq> []
   \<and> (\<exists>k' \<in> set [''k0'', ''k1'', ''k2''].
        healthy \<lparr>api_keys = [''k0'', ''k1'', ''k2''], current_key_index = 0,
          key_usage_count = Map.empty, key_error_count = [''k0'' \<mapsto> 5, ''k1'' \<mapsto> 7],
          max_requests_per_key = 150, max_errors_per_key = 5\<rparr> k')
   \<and> healthy \<lparr>api_keys = [''k0'', ''k1'', ''k2''], current_key_index = 0,
          key_usage_count = Map.empty, key_error_count = [''k0'' \<mapsto> 5, ''k1'' \<mapsto> 7],
          max_requests_per_key = 150, max_errors_per_key = 5\<rparr>
        (api_keys \<lparr>api_keys = [''k0'', ''k1'', ''k2''], current_key_index = 0,
          key_usage_count = Map.empty, key_error_count = [''k0'' \<mapsto> 5, ''k1'' \<mapsto> 7],
          max_requests_per_key = 150, max_errors_per_key = 5\<rparr>
         ! current_key_index (snd (rotate_key \<lparr>api_keys = [''k0'', ''k1'', ''k2''],
          current_key_index = 0,
          key_usage_count = Map.empty, key_error_count = [''k0'' \<mapsto> 5, ''k1'' \<mapsto> 7],
          max_requests_per_key = 150, max_errors_per_key = 5\<rparr> (1 / 2))))
   \<and> fst (rotate_key \<lparr>api_keys = [''k0'', ''k1'', ''k2''], current_key_index = 0,
          key_usage_count = Map.empty, key_error_count = [''k0'' \<mapsto> 5, ''k1'' \<mapsto> 7],
          max_requests_per_key = 150, max_errors_per_key = 5\<rparr> (1 / 2)) = Inr ''k2''"
proof -
  let ?r = "\<lparr>api_keys = [''k0'', ''k1'', ''k2''], current_key_index = 0,
       key_usage_count = Map.empty, key_error_count = [''k0'' \<mapsto> 5, ''k1'' \<mapsto> 7],
       max_requests_per_key = 150, max_errors_per_key = (5::int)\<rparr>"
  have h1: "api_keys ?r \<noteq> []" by simp
  have h2: "current_key_index ?r < length (api_keys ?r)" by simp
  have h3: "\<exists>k' \<in> set [''k0'', ''k1'', ''k2'']. healthy ?r k'"
    by (simp add: healthy_def dict_get_def)
  from rotate_key_selects_healthy_if_any [OF h1 h2, of "1 / 2"] obtain k s where ks:
    "rotate_key ?r (1 / 2) = (Inr k, s)"
    "k = api_keys ?r ! current_key_index s"
    "(\<exists>k' \<in> set (api_keys ?r). healthy ?r k') \<longrightarrow> healthy ?r k"
    by blast
  have h3': "\<exists>k' \<in> set (api_keys ?r). healthy ?r k'"
    by (simp add: healthy_def dict_get_def)
  from ks(3) h3' have "healthy ?r k" by blast
  with ks(1) ks(2) have c: "healthy ?r (api_keys ?r ! current_key_index (snd (rotate_key ?r (1 / 2))))"
    by simp
  have e: "fst (rotate_key ?r (1 / 2)) = Inr ''k2''"
    by code_simp
  from h1 h3 c e show ?thesis by blast
qed

section \<open>Facts about the orchestration loop\<close>

declare process_windows.simps [simp del]

lemma written_texts_append: "written_texts (A @ B) = written_texts A @ written_texts B"
  by (induction A rule: written_texts.induct) auto

lemma count_failed_append: "count_failed (A @ B) = count_failed A + count_failed B"
  by (induction A rule: count_failed.induct) auto

lemma count_insufficient_append:
  "count_insufficient (A @ B) = count_insufficient A + count_insufficient B"
  by (induction A rule: count_insufficient.induct) auto

lemma length_gathered_split:
  "int (length D) = count_failed D + count_insufficient D + int (length (written_texts D))"
  by (induction D rule: written_texts.induct) auto

lemma count_insufficient_pos:
  "(k, Some t) \<in> set D \<Longrightarrow> \<not> sufficient t \<Longrightarrow> 0 < count_insufficient D"
proof (induction D rule: count_insufficient.induct)
  case 1
  then show ?case by simp
next
  case (2 k' rest)
  then show ?case by auto
next
  case (3 k' r rest)
  have "0 \<le> count_insufficient rest"
    by (induction rest rule: count_insufficient.induct) auto
  with 3 show ?case by auto
qed

lemma count_failed_remote:
  "\<forall>(k, r) \<in> set D. (r = None) = (remote k = Raised) \<Longrightarrow>
   count_failed D = int (length (filter (\<lambda>k. remote k = Raised) (map fst D)))"
  by (induction D rule: count_failed.induct) auto

lemma generate_batch_effect:
  assumes "generate_batch self out = (r, self')"
  shows "(r = None) = (out = Raised)
    \<and> failed_batches (stats self')
        = failed_batches (stats self) + (if out = Raised then 1 else 0)
    \<and> completed_batches (stats self') = completed_batches (stats self)
    \<and> backup_data self' = backup_data self
    \<and> generated_emails self \<subseteq> generated_emails self'
    \<and> generated_names self \<subseteq> generated_names self'
    \<and> generated_domains self \<subseteq> generated_domains self'"
proof (cases "out")
  case Raised
  with assms show ?thesis by (auto simp add: generate_batch_def)
next
  case (Responded body)
  obtain f s1 where p: "parse_and_filter_batch self (py_strip body) = (f, s1)"
    by (cases "parse_and_filter_batch self (py_strip body)") auto
  with assms Responded have "r = Some f" "self' = s1"
    by (simp_all add: generate_batch_def)
  with parse_and_filter_batch_mono [OF p] Responded show ?thesis by simp
qed

lemma complete_tasks_effect:
  "distinct ks \<Longrightarrow> complete_tasks remote ks (self, res) = (self', res') \<Longrightarrow>
   failed_batches (stats self')
     = failed_batches (stats self) + int (length (filter (\<lambda>k. remote k = Raised) ks))
   \<and> completed_batches (stats self') = completed_batches (stats self)
   \<and> backup_data self' = backup_data self
   \<and> (\<forall>k \<in> set ks. (res' k = None) = (remote k = Raised))
   \<and> (\<forall>k. k \<notin> set ks \<longrightarrow> res' k = res k)"
proof (induction ks arbitrary: self res)
  case Nil
  then show ?case by simp
next
  case (Cons k ks)
  obtain r s1 where g: "generate_batch self (remote k) = (r, s1)"
    by (cases "generate_batch self (remote k)") auto
  with Cons.prems have rest: "complete_tasks remote ks (s1, res(k := r)) = (self', res')"
    by simp
  from Cons.prems have d: "distinct ks" and nk: "k \<notin> set ks" by simp_all
  note ih = Cons.IH [OF d rest]
  note ge = generate_batch_effect [OF g]
  from ih nk have "res' k = r" by simp
  with ge have a: "(res' k = None) = (remote k = Raised)" by simp
  from ih ge have f: "failed_batches (stats self')
     = failed_batches (stats self) + int (length (filter (\<lambda>k. remote k = Raised) (k # ks)))"
    by simp
  from ih have o: "\<forall>k'. k' \<notin> set (k # ks) \<longrightarrow> res' k' = res k'" by simp
  from ih ge a f o show ?case by simp
qed

lemma handle_result_cases:
  "handle_result k r (self, w) =
     (case r of
        None \<Rightarrow> (self, w\<lparr>gathered := gathered w @ [(k, None)]\<rparr>)
      | Some t \<Rightarrow>
          if sufficient t
          then (self\<lparr>backup_data := backup_data self @ [t],
                  stats := (stats self)
                    \<lparr>completed_batches := completed_batches (stats self) + 1,
                     total_leads_generated := total_leads_generated (stats self)
                       + max 0 (int (length (filter (\<lambda>c. c = newline) t)))\<rparr>\<rparr>,
                w\<lparr>gathered := gathered w @ [(k, Some t)],
                  master_csv := master_csv w @ t @ [newline]\<rparr>)
          else (self, w\<lparr>gathered := gathered w @ [(k, Some t)]\<rparr>))"
  by (simp add: handle_result_def save_results_def Let_def split: option.splits)

text \<open>Going through the results changes the failure counter for no batch.\<close>

lemma fold_handle_result_effect:
  "fold (\<lambda>k. handle_result k (res k)) bs s = s' \<Longrightarrow>
   gathered (snd s') = gathered (snd s) @ map (\<lambda>k. (k, res k)) bs
   \<and> failed_batches (stats (fst s')) = failed_batches (stats (fst s))
   \<and> completed_batches (stats (fst s'))
       = completed_batches (stats (fst s))
         + int (length (written_texts (map (\<lambda>k. (k, res k)) bs)))
   \<and> master_csv (snd s')
       = master_csv (snd s)
         @ concat (map (\<lambda>t. t @ [newline]) (written_texts (map (\<lambda>k. (k, res k)) bs)))
   \<and> backup_data (fst s') = backup_data (fst s) @ written_texts (map (\<lambda>k. (k, res k)) bs)
   \<and> backup_writes (snd s') = backup_writes (snd s)"
proof (induction bs arbitrary: s)
  case Nil
  then show ?case by simp
next
  case (Cons b bs)
  obtain self w where s: "s = (self, w)" by (cases s) auto
  let ?s1 = "handle_result b (res b) (self, w)"
  from Cons.prems s have "fold (\<lambda>k. handle_result k (res k)) bs ?s1 = s'" by simp
  note ih = Cons.IH [OF this]
  show ?case
  proof (cases "res b")
    case None
    then have "?s1 = (self, w\<lparr>gathered := gathered w @ [(b, None)]\<rparr>)"
      by (simp add: handle_result_cases)
    with ih s None show ?thesis by simp
  next
    case (Some t)
    show ?thesis
    proof (cases "sufficient t")
      case True
      with Some have "?s1 =
          (self\<lparr>backup_data := backup_data self @ [t],
                  stats := (stats self)
                    \<lparr>completed_batches := completed_batches (stats self) + 1,
                     total_leads_generated := total_leads_generated (stats self)
                       + max 0 (int (length (filter (\<lambda>c. c = newline) t)))\<rparr>\<rparr>,
                w\<lparr>gathered := gathered w @ [(b, Some t)],
                  master_csv := master_csv w @ t @ [newline]\<rparr>)"
        by (simp add: handle_result_cases)
      with ih s Some True show ?thesis by simp
    next
      case False
      with Some have "?s1 = (self, w\<lparr>gathered := gathered w @ [(b, Some t)]\<rparr>)"
        by (simp add: handle_result_cases)
      with ih s Some False show ?thesis by simp
    qed
  qed
qed

lemma run_effect_refl: "run_effect s [] s"
  by (simp add: run_effect_def)

lemma run_effect_trans:
  "run_effect s D1 s1 \<Longrightarrow> run_effect s1 D2 s2 \<Longrightarrow> run_effect s (D1 @ D2) s2"
  by (simp add: run_effect_def written_texts_append count_failed_append)

lemma run_effect_save_backup:
  "run_effect s D (self1, w1) \<Longrightarrow> run_effect s D (self1, save_backup self1 w1)"
  by (simp add: run_effect_def save_backup_def)

lemma filter_insort_key_length:
  "length (filter P (insort_key f x xs)) = length (filter P (x # xs))"
  by (induction xs) auto

lemma filter_sort_key_length:
  "length (filter P (sort_key f xs)) = length (filter P xs)"
  by (induction xs) (simp_all add: filter_insort_key_length)

lemma process_window_effect:
  assumes "process_window cfg remote done_at i s = s'"
  shows "\<exists>D. run_effect s D s' \<and> map fst D = batch_nums cfg i
     \<and> (\<forall>(k, r) \<in> set D. (r = None) = (remote k = Raised))"
proof -
  obtain self w where s: "s = (self, w)" by (cases s) auto
  let ?bs = "batch_nums cfg i"
  let ?ks = "sort_key done_at ?bs"
  obtain self1 res where c: "complete_tasks remote ?ks (self, \<lambda>_. None) = (self1, res)"
    by (cases "complete_tasks remote ?ks (self, \<lambda>_. None)") auto
  have d: "distinct ?ks" by (simp add: batch_nums_def)
  note p1 = complete_tasks_effect [OF d c]
  from assms s c have f: "fold (\<lambda>k. handle_result k (res k)) ?bs (self1, w) = s'"
    by (simp add: process_window_def)
  note p2 = fold_handle_result_effect [OF f]
  let ?D = "map (\<lambda>k. (k, res k)) ?bs"
  have m: "map fst ?D = ?bs" by (simp add: comp_def)
  from p1 have iff: "\<forall>(k, r) \<in> set ?D. (r = None) = (remote k = Raised)" by auto
  from count_failed_remote [OF iff]
  have "count_failed ?D = int (length (filter (\<lambda>k. remote k = Raised) (map fst ?D)))" .
  then have "count_failed ?D = int (length (filter (\<lambda>k. remote k = Raised) ?bs))"
    by (simp only: m)
  with p1 have fl: "failed_batches (stats self1) = failed_batches (stats self) + count_failed ?D"
    by (simp add: filter_sort_key_length)
  from p1 p2 fl s have "run_effect s ?D s'" by (simp add: run_effect_def)
  with m iff show ?thesis by blast
qed

lemma upto_window:
  assumes "0 < c" "i < n + 1"
  shows "[i .. min (i + c) (n + 1) - 1] @ [i + c .. n] = [i .. (n::int)]"
proof (cases "i + c \<le> n")
  case True
  with assms have "min (i + c) (n + 1) - 1 = i + c - 1" by simp
  moreover from assms True have "[i .. n] = [i .. i + c - 1] @ [i + c .. n]"
    by (intro upto_split1) simp_all
  ultimately show ?thesis by simp
next
  case False
  with assms have "min (i + c) (n + 1) - 1 = n" by simp
  moreover from False have "[i + c .. n] = []" by simp
  ultimately show ?thesis by simp
qed

text \<open>
  With a positive step and a non-zero backup interval the loop over the windows raises
  nothing and gathers one result for each batch from \<open>i\<close> to \<open>num_batches\<close>, in order.
\<close>

lemma process_windows_effect:
  assumes "0 < concurrency_level cfg" "backup_interval cfg \<noteq> 0"
  shows "nat (num_batches cfg + 1 - i) = m \<Longrightarrow>
     \<exists>D s'. process_windows cfg remote done_at i s = (None, s')
       \<and> run_effect s D s' \<and> map fst D = [i .. num_batches cfg]
       \<and> (\<forall>(k, r) \<in> set D. (r = None) = (remote k = Raised))"
proof (induction m arbitrary: i s rule: less_induct)
  case (less m)
  show ?case
  proof (cases "i < num_batches cfg + 1")
    case False
    then have "process_windows cfg remote done_at i s = (None, s)"
      by (simp add: process_windows.simps)
    moreover from False have "[i .. num_batches cfg] = []" by simp
    ultimately show ?thesis using run_effect_refl [of s] by (intro exI [of _ "[]"]) simp
  next
    case True
    obtain self1 w1 where pw: "process_window cfg remote done_at i s = (self1, w1)"
      by (cases "process_window cfg remote done_at i s") auto
    from process_window_effect [OF pw] obtain D1 where D1:
      "run_effect s D1 (self1, w1)" "map fst D1 = batch_nums cfg i"
      "\<forall>(k, r) \<in> set D1. (r = None) = (remote k = Raised)"
      by blast
    let ?w2 = "if completed_batches (stats self1) mod backup_interval cfg = 0
               then save_backup self1 w1 else w1"
    have r1: "run_effect s D1 (self1, ?w2)"
      using D1(1) run_effect_save_backup by simp
    have step: "process_windows cfg remote done_at i s
        = process_windows cfg remote done_at (i + concurrency_level cfg) (self1, ?w2)"
      using True assms pw by (subst process_windows.simps) (simp add: Let_def)
    have "nat (num_batches cfg + 1 - (i + concurrency_level cfg)) < m"
      using True assms(1) less.prems by simp
    from less.IH [OF this refl, of "(self1, ?w2)"] obtain D2 s' where D2:
      "process_windows cfg remote done_at (i + concurrency_level cfg) (self1, ?w2) = (None, s')"
      "run_effect (self1, ?w2) D2 s'"
      "map fst D2 = [i + concurrency_level cfg .. num_batches cfg]"
      "\<forall>(k, r) \<in> set D2. (r = None) = (remote k = Raised)"
      by blast
    have a: "map fst (D1 @ D2) = [i .. num_batches cfg]"
      using D1(2) D2(3) upto_window [OF assms(1) True]
      by (simp add: batch_nums_def)
    have b: "\<forall>(k, r) \<in> set (D1 @ D2). (r = None) = (remote k = Raised)"
      using D1(3) D2(4) by auto
    have c: "run_effect s (D1 @ D2) s'"
      using r1 D2(2) by (rule run_effect_trans)
    from step D2(1) have e: "process_windows cfg remote done_at i s = (None, s')" by simp
    from e c a b show ?thesis
      by (intro exI [of _ "D1 @ D2"] exI [of _ s'] conjI)
  qed
qed

text \<open>
  A whole run with a positive step, a non-zero backup interval and at least one batch.
\<close>

lemma process_batches_effect:
  assumes "0 < concurrency_level cfg" "backup_interval cfg \<noteq> 0" "0 < num_batches cfg"
    and "process_batches cfg remote done_at self = (e, self', w')"
  shows "e = None
     \<and> map fst (gathered w') = [1 .. num_batches cfg]
     \<and> (\<forall>(k, r) \<in> set (gathered w'). (r = None) = (remote k = Raised))
     \<and> failed_batches (stats self')
         = failed_batches (stats self) + count_failed (gathered w')
     \<and> completed_batches (stats self')
         = completed_batches (stats self) + int (length (written_texts (gathered w')))
     \<and> master_csv w'
         = header @ concat (map (\<lambda>t. t @ [newline]) (written_texts (gathered w')))
     \<and> backup_data self' = backup_data self @ written_texts (gathered w')
     \<and> backup_writes w' \<noteq> [] \<and> last (backup_writes w') = backup_data self'"
proof -
  let ?w0 = "\<lparr>master_csv = header, backup_writes = [], gathered = []\<rparr>"
  from process_windows_effect [OF assms(1,2) refl,
      where i = 1 and remote = remote and done_at = done_at and s = "(self, ?w0)"]
  obtain D s1 where D: "process_windows cfg remote done_at 1 (self, ?w0) = (None, s1)"
    "run_effect (self, ?w0) D s1" "map fst D = [1 .. num_batches cfg]"
    "\<forall>(k, r) \<in> set D. (r = None) = (remote k = Raised)"
    by blast
  obtain self1 w1 where s1: "s1 = (self1, w1)" by (cases s1) auto
  from assms D(1) s1 have r: "e = None \<and> self' = self1 \<and> w' = save_backup self1 w1"
    by (auto simp add: process_batches_def Let_def)
  from D(2) s1 have g: "gathered w1 = D" by (simp add: run_effect_def)
  from D(2) s1 g r D(3) D(4) show ?thesis
    by (simp add: run_effect_def save_backup_def)
qed

section \<open>The key sets over a whole run\<close>

lemma keys_grow_refl: "keys_grow a a"
  by (simp add: keys_grow_def)

lemma keys_grow_trans: "keys_grow a b \<Longrightarrow> keys_grow b c \<Longrightarrow> keys_grow a c"
  by (auto simp add: keys_grow_def)

lemma generate_batch_grow: "keys_grow self (snd (generate_batch self out))"
proof -
  obtain r s1 where g: "generate_batch self out = (r, s1)"
    by (cases "generate_batch self out") auto
  from generate_batch_effect [OF g] g show ?thesis by (simp add: keys_grow_def)
qed

lemma complete_tasks_grow:
  "keys_grow self (fst (complete_tasks remote ks (self, res)))"
proof (induction ks arbitrary: self res)
  case Nil
  show ?case by (simp add: keys_grow_refl)
next
  case (Cons k ks)
  obtain r s1 where g: "generate_batch self (remote k) = (r, s1)"
    by (cases "generate_batch self (remote k)") auto
  from generate_batch_grow [of self "remote k"] g have a: "keys_grow self s1" by simp
  from Cons.IH [of s1 "res(k := r)"]
  have b: "keys_grow s1 (fst (complete_tasks remote ks (s1, res(k := r))))" .
  from keys_grow_trans [OF a b] g show ?case by simp
qed

lemma handle_result_grow: "keys_grow self (fst (handle_result k r (self, w)))"
  by (simp add: handle_result_cases keys_grow_def split: option.splits)

lemma fold_handle_result_grow:
  "keys_grow (fst s) (fst (fold (\<lambda>k. handle_result k (res k)) bs s))"
proof (induction bs arbitrary: s)
  case Nil
  show ?case by (simp add: keys_grow_refl)
next
  case (Cons b bs)
  obtain self w where s: "s = (self, w)" by (cases s) auto
  from handle_result_grow [of self b "res b" w] s
  have a: "keys_grow (fst s) (fst (handle_result b (res b) s))" by simp
  from keys_grow_trans [OF a Cons.IH [of "handle_result b (res b) s"]]
  show ?case by simp
qed

lemma process_window_grow:
  "keys_grow (fst s) (fst (process_window cfg remote done_at i s))"
proof -
  obtain self w where s: "s = (self, w)" by (cases s) auto
  let ?ks = "sort_key done_at (batch_nums cfg i)"
  obtain self1 res where c: "complete_tasks remote ?ks (self, \<lambda>_. None) = (self1, res)"
    by (cases "complete_tasks remote ?ks (self, \<lambda>_. None)") auto
  from complete_tasks_grow [of self remote ?ks "\<lambda>_. None"] c
  have a: "keys_grow self self1" by simp
  from fold_handle_result_grow [of "(self1, w)" res "batch_nums cfg i"]
  have b: "keys_grow self1
      (fst (fold (\<lambda>k. handle_result k (res k)) (batch_nums cfg i) (self1, w)))"
    by simp
  from keys_grow_trans [OF a b] s c show ?thesis by (simp add: process_window_def)
qed

lemma process_windows_grow:
  "nat (num_batches cfg + 1 - i) = m \<Longrightarrow>
   keys_grow (fst s) (fst (snd (process_windows cfg remote done_at i s)))"
proof (induction m arbitrary: i s rule: less_induct)
  case (less m)
  show ?case
  proof (cases "0 < concurrency_level cfg \<and> i < num_batches cfg + 1")
    case False
    then have "process_windows cfg remote done_at i s = (None, s)"
      by (subst process_windows.simps) auto
    then show ?thesis by (simp add: keys_grow_refl)
  next
    case True
    obtain self1 w1 where pw: "process_window cfg remote done_at i s = (self1, w1)"
      by (cases "process_window cfg remote done_at i s") auto
    from process_window_grow [of s cfg remote done_at i] pw
    have a: "keys_grow (fst s) self1" by simp
    show ?thesis
    proof (cases "backup_interval cfg = 0")
      case z: True
      with True pw have "process_windows cfg remote done_at i s
          = (Some ZeroDivisionError, self1, w1)"
        by (subst process_windows.simps) simp
      with a show ?thesis by simp
    next
      case nz: False
      let ?w2 = "if completed_batches (stats self1) mod backup_interval cfg = 0
                 then save_backup self1 w1 else w1"
      from True nz pw have step: "process_windows cfg remote done_at i s
          = process_windows cfg remote done_at (i + concurrency_level cfg) (self1, ?w2)"
        by (subst process_windows.simps) (simp add: Let_def)
      have "nat (num_batches cfg + 1 - (i + concurrency_level cfg)) < m"
        using True less.prems by auto
      from less.IH [OF this refl, of "(self1, ?w2)"]
      have b: "keys_grow self1
          (fst (snd (process_windows cfg remote done_at (i + concurrency_level cfg)
             (self1, ?w2))))"
        by simp
      from keys_grow_trans [OF a b] step show ?thesis by simp
    qed
  qed
qed

lemma process_batches_grow:
  "keys_grow self (fst (snd (process_batches cfg remote done_at self)))"
proof -
  let ?w0 = "\<lparr>master_csv = header, backup_writes = [], gathered = []\<rparr>"
  let ?r = "process_windows cfg remote done_at 1 (self, ?w0)"
  from process_windows_grow [OF refl,
      where s = "(self, ?w0)" and cfg = cfg and i = 1 and remote = remote and done_at = done_at]
  have a: "keys_grow self (fst (snd ?r))" by simp
  obtain e self1 w1 where r: "?r = (e, self1, w1)" by (cases ?r) auto
  from a r show ?thesis
    by (cases e) (simp_all add: process_batches_def Let_def keys_grow_refl)
qed

lemma init_inv: "accepted_unique [] \<and> keys_registered [] init_generator"
  by (simp add: accepted_unique_def keys_registered_def)

lemma filter_line_kept_iff:
  assumes "parseable line"
  shows "(fst (snd (filter_line line (self, fl, d))) = fl @ [line]) = (\<not> collides self line)"
proof (cases "collides self line")
  case True
  with assms show ?thesis by (simp add: filter_line_dup)
next
  case False
  with assms show ?thesis by (simp add: filter_line_fresh)
qed

text \<open>
  C3 (amended). The three key sets never shrink: not under the loop body of the filter,
  a whole batch text, a run of batch texts, \<open>generate_batch\<close>, the handling of a
  result, or a whole run of \<open>process_batches\<close>. A line that the filter evaluates is
  appended to the kept lines of its batch exactly when none of its three identity
  components is in the key sets at that moment. In a run that starts from the empty key
  sets, no two kept lines have the same email or the same name, and no two have the same
  non-empty domain; each of these keys is in the final key sets.
\<close>

theorem key_sets_grow_and_kept_lines_unique:
  "(filter_line line (self, fl, d) = (self1, fl1, d1) \<longrightarrow> keys_grow self self1)
   \<and> (parse_and_filter_batch self batch_data = (filtered, self2) \<longrightarrow> keys_grow self self2)
   \<and> (filter_run batches (kept, self) = (kept3, self3) \<longrightarrow> keys_grow self self3)
   \<and> keys_grow self (snd (generate_batch self out))
   \<and> keys_grow self (fst (handle_result k r (self, w)))
   \<and> keys_grow self (fst (snd (process_batches cfg remote done_at self)))
   \<and> (parseable line \<longrightarrow>
      (fst (snd (filter_line line (self, fl, d))) = fl @ [line]) = (\<not> collides self line))
   \<and> (filter_run batches ([], init_generator) = (kept4, self4) \<longrightarrow>
      accepted_unique kept4 \<and> keys_registered kept4 self4)"
proof (intro conjI impI)
  assume a: "filter_line line (self, fl, d) = (self1, fl1, d1)"
  from filter_line_mono [OF a] show "keys_grow self self1" by (simp add: keys_grow_def)
next
  assume a: "parse_and_filter_batch self batch_data = (filtered, self2)"
  from parse_and_filter_batch_mono [OF a] show "keys_grow self self2"
    by (simp add: keys_grow_def)
next
  assume a: "filter_run batches (kept, self) = (kept3, self3)"
  from filter_run_mono [OF a] show "keys_grow self self3" by (simp add: keys_grow_def)
next
  show "keys_grow self (snd (generate_batch self out))" by (rule generate_batch_grow)
next
  show "keys_grow self (fst (handle_result k r (self, w)))" by (rule handle_result_grow)
next
  show "keys_grow self (fst (snd (process_batches cfg remote done_at self)))"
    by (rule process_batches_grow)
next
  assume "parseable line"
  then show "(fst (snd (filter_line line (self, fl, d))) = fl @ [line]) = (\<not> collides self line)"
    by (rule filter_line_kept_iff)
next
  assume a: "filter_run batches ([], init_generator) = (kept4, self4)"
  from filter_run_inv [OF _ _ a] init_inv
  show "accepted_unique kept4" "keys_registered kept4 self4" by simp_all
qed

theorem key_sets_grow_and_kept_lines_unique_witness:
  "filter_run
     [''Acme Salon,info@acme.com,acme.com'' @ [newline] @ ''Bolt Gym,hello@bolt.io,bolt.io'',
      ''Acme Two,INFO@acme.com,acme2.com'' @ [newline] @ ''Cafe Uno,uno@cafe.it,'']
     ([], init_generator)
   = ([''Acme Salon,info@acme.com,acme.com'', ''Bolt Gym,hello@bolt.io,bolt.io'',
       ''Cafe Uno,uno@cafe.it,''],
      init_generator
        \<lparr>generated_emails := {''uno@cafe.it'', ''hello@bolt.io'', ''info@acme.com''},
         generated_names := {''cafe uno'', ''bolt gym'', ''acme salon''},
         generated_domains := {''bolt.io'', ''acme.com''},
         stats := (stats init_generator)\<lparr>duplicates_prevented := 1\<rparr>\<rparr>)
   \<and> accepted_unique [''Acme Salon,info@acme.com,acme.com'', ''Bolt Gym,hello@bolt.io,bolt.io'',
       ''Cafe Uno,uno@cafe.it,'']
   \<and> parseable ''Cafe Uno,uno@cafe.it,''
   \<and> \<not> collides init_generator ''Cafe Uno,uno@cafe.it,''
   \<and> filter_line ''Cafe Uno,uno@cafe.it,'' (init_generator, [], 0)
       = (init_generator\<lparr>generated_emails := {''uno@cafe.it''},
            generated_names := {''cafe uno''}\<rparr>, [''Cafe Uno,uno@cafe.it,''], 0)
   \<and> keys_grow init_generator
        (init_generator\<lparr>generated_emails := {''uno@cafe.it''}, generated_names := {''cafe uno''}\<rparr>)"
proof -
  let ?b = "[''Acme Salon,info@acme.com,acme.com'' @ [newline] @ ''Bolt Gym,hello@bolt.io,bolt.io'',
      ''Acme Two,INFO@acme.com,acme2.com'' @ [newline] @ ''Cafe Uno,uno@cafe.it,'']"
  let ?k = "[''Acme Salon,info@acme.com,acme.com'', ''Bolt Gym,hello@bolt.io,bolt.io'',
       ''Cafe Uno,uno@cafe.it,'']"
  let ?s = "init_generator
        \<lparr>generated_emails := {''uno@cafe.it'', ''hello@bolt.io'', ''info@acme.com''},
         generated_names := {''cafe uno'', ''bolt gym'', ''acme salon''},
         generated_domains := {''bolt.io'', ''acme.com''},
         stats := (stats init_generator)\<lparr>duplicates_prevented := 1\<rparr>\<rparr>"
  let ?l = "''Cafe Uno,uno@cafe.it,''"
  let ?s1 = "init_generator\<lparr>generated_emails := {''uno@cafe.it''},
            generated_names := {''cafe uno''}\<rparr>"
  have run: "filter_run ?b ([], init_generator) = (?k, ?s)"
    by (simp add: eval_filter eval_string Let_def)
  have p: "parseable ?l" by (simp add: eval_filter eval_string)
  have st: "filter_line ?l (init_generator, [], 0) = (?s1, [?l], 0)"
    by (simp add: eval_filter eval_string Let_def)
  note t = key_sets_grow_and_kept_lines_unique
    [where line = ?l and self = init_generator and fl = "[]" and d = 0 and ?self1.0 = ?s1
       and ?fl1.0 = "[?l]" and ?d1.0 = 0 and batches = ?b and ?kept4.0 = ?k and ?self4.0 = ?s]
  from t run have u: "accepted_unique ?k" by blast
  from t st have m: "keys_grow init_generator ?s1" by blast
  from t p st have c: "\<not> collides init_generator ?l" by simp
  from run u p c st m show ?thesis by blast
qed

theorem kept_lines_share_empty_domain_counterexample:
  "fst (filter_run
     [''Acme Salon,info@acme.com,'' @ [newline] @ ''Bolt Gym,hello@bolt.io,'']
     ([], init_generator))
   = [''Acme Salon,info@acme.com,'', ''Bolt Gym,hello@bolt.io,'']
   \<and> line_domain ''Acme Salon,info@acme.com,'' = line_domain ''Bolt Gym,hello@bolt.io,''"
  by (simp add: eval_filter eval_string Let_def)

text \<open>The four example runs, evaluated once each.\<close>

lemmas eval_loop = process_batches_def process_windows.simps process_window_def batch_nums_def
  handle_result_def save_results_def save_backup_def sufficient_def generate_batch_def
  example_config_def config_default_def example_response_def Let_def upto.simps

lemma run_all_respond:
  "case process_batches example_config all_respond (\<lambda>_. 0) init_generator of
     (e, self, w) \<Rightarrow>
       e = None \<and> completed_batches (stats self) = 4
       \<and> backup_writes w
           = [[example_response 1, example_response 2, example_response 3, example_response 4]]"
  by (simp add: eval_loop eval_filter eval_string all_respond_def)

lemma run_two_fail:
  "case process_batches example_config two_fail (\<lambda>_. 0) init_generator of
     (e, self, w) \<Rightarrow>
       count_insufficient (gathered w) = 0
       \<and> master_csv w = header @ example_response 2 @ [newline] @ example_response 4 @ [newline]"
  by (simp add: eval_loop eval_filter eval_string two_fail_def)

lemma run_two_fail_short:
  "case process_batches example_config two_fail_short (\<lambda>_. 0) init_generator of
     (e, self, w) \<Rightarrow>
       gathered w = [(1, None), (2, Some ''Bolt Gym,hello@bolt.io,bolt.io''), (3, None),
          (4, Some ''Cafe Uno,ciao@cafeuno.it,cafeuno.it'')]
       \<and> completed_batches (stats self) = 0 \<and> master_csv w = header"
  by (simp add: eval_loop eval_filter eval_string two_fail_short_def)

lemma run_one_short:
  "case process_batches example_config one_short (\<lambda>_. 0) init_generator of
     (e, self, w) \<Rightarrow> (2, Some ''Bolt Gym,hello@bolt.io,bolt.io'') \<in> set (gathered w)"
  by (simp add: eval_loop eval_filter eval_string one_short_def)

lemma insufficient_short: "length (py_strip t) \<le> 50 \<Longrightarrow> \<not> sufficient t"
  by (simp add: sufficient_def)

lemma length_gathered:
  "map fst D = [1 .. n] \<Longrightarrow> 0 < n \<Longrightarrow> int (length D) = n"
proof -
  assume a: "map fst D = [1 .. n]" and n: "0 < n"
  have "length D = length (map fst D)" by simp
  also have "\<dots> = length [1 .. n]" by (simp only: a)
  also have "\<dots> = nat n" by simp
  finally show ?thesis using n by simp
qed

text \<open>
  C9 (amended). An exception inside \<open>generate_batch\<close> adds exactly one to the failure
  counter and changes nothing else; its result \<open>None\<close> is passed over by the loop without
  a write and without a counter. A run with a positive window size, a non-zero backup
  interval and at least one batch raises nothing, goes through every batch from 1 to
  \<open>num_batches\<close> exactly once (no batch is tried again), and ends with the failure
  counter raised by the number of remote calls that raised. With four batches, two
  failing remote calls and two others whose filtered texts are longer than 50 characters,
  the run from the initial state ends with \<open>completed_batches = 2\<close>,
  \<open>failed_batches = 2\<close>, and the output file is the header followed by the two filtered
  texts, each with a newline.
\<close>

theorem failed_batch_counted_once_and_dropped:
  "generate_batch self Raised
     = (None, self\<lparr>stats := (stats self)
                \<lparr>failed_batches := failed_batches (stats self) + 1\<rparr>\<rparr>)
   \<and> handle_result k None (self, w) = (self, w\<lparr>gathered := gathered w @ [(k, None)]\<rparr>)
   \<and> (0 < concurrency_level cfg \<and> backup_interval cfg \<noteq> 0 \<and> 0 < num_batches cfg
        \<and> process_batches cfg remote done_at self = (e, self', w') \<longrightarrow>
      e = None
      \<and> map fst (gathered w') = [1 .. num_batches cfg]
      \<and> (\<forall>(k, r) \<in> set (gathered w'). (r = None) = (remote k = Raised))
      \<and> failed_batches (stats self')
          = failed_batches (stats self)
            + int (length (filter (\<lambda>k. remote k = Raised) [1 .. num_batches cfg])))
   \<and> (num_batches cfg = 4 \<and> 0 < concurrency_level cfg \<and> backup_interval cfg \<noteq> 0
        \<and> process_batches cfg remote done_at init_generator = (e, self', w')
        \<and> length (filter (\<lambda>k. remote k = Raised) [1 .. 4]) = 2
        \<and> count_insufficient (gathered w') = 0 \<longrightarrow>
      completed_batches (stats self') = 2
      \<and> failed_batches (stats self') = 2
      \<and> length (written_texts (gathered w')) = 2
      \<and> master_csv w'
          = header @ concat (map (\<lambda>t. t @ [newline]) (written_texts (gathered w'))))"
proof (intro conjI impI)
  show "generate_batch self Raised
     = (None, self\<lparr>stats := (stats self)
                \<lparr>failed_batches := failed_batches (stats self) + 1\<rparr>\<rparr>)"
    by (simp add: generate_batch_def)
next
  show "handle_result k None (self, w) = (self, w\<lparr>gathered := gathered w @ [(k, None)]\<rparr>)"
    by (simp add: handle_result_cases)
next
  assume a: "0 < concurrency_level cfg \<and> backup_interval cfg \<noteq> 0 \<and> 0 < num_batches cfg
        \<and> process_batches cfg remote done_at self = (e, self', w')"
  then have h: "0 < concurrency_level cfg" "backup_interval cfg \<noteq> 0" "0 < num_batches cfg"
    "process_batches cfg remote done_at self = (e, self', w')"
    by simp_all
  note pe = process_batches_effect [OF h]
  from pe show "e = None" by simp
  from pe show m: "map fst (gathered w') = [1 .. num_batches cfg]" by simp
  from pe show i: "\<forall>(k, r) \<in> set (gathered w'). (r = None) = (remote k = Raised)" by simp
  from count_failed_remote [OF i]
  have "count_failed (gathered w')
      = int (length (filter (\<lambda>k. remote k = Raised) (map fst (gathered w'))))" .
  then have "count_failed (gathered w')
      = int (length (filter (\<lambda>k. remote k = Raised) [1 .. num_batches cfg]))"
    by (simp only: m)
  with pe show "failed_batches (stats self')
          = failed_batches (stats self)
            + int (length (filter (\<lambda>k. remote k = Raised) [1 .. num_batches cfg]))"
    by simp
next
  assume a: "num_batches cfg = 4 \<and> 0 < concurrency_level cfg \<and> backup_interval cfg \<noteq> 0
        \<and> process_batches cfg remote done_at init_generator = (e, self', w')
        \<and> length (filter (\<lambda>k. remote k = Raised) [1 .. 4]) = 2
        \<and> count_insufficient (gathered w') = 0"
  then have h: "0 < concurrency_level cfg" "backup_interval cfg \<noteq> 0" "0 < num_batches cfg"
    "process_batches cfg remote done_at init_generator = (e, self', w')"
    by simp_all
  note pe = process_batches_effect [OF h]
  from pe have m: "map fst (gathered w') = [1 .. num_batches cfg]" by simp
  from pe have i: "\<forall>(k, r) \<in> set (gathered w'). (r = None) = (remote k = Raised)" by simp
  from count_failed_remote [OF i]
  have "count_failed (gathered w')
      = int (length (filter (\<lambda>k. remote k = Raised) (map fst (gathered w'))))" .
  then have "count_failed (gathered w')
      = int (length (filter (\<lambda>k. remote k = Raised) [1 .. num_batches cfg]))"
    by (simp only: m)
  with a have cf: "count_failed (gathered w') = 2" by simp
  from length_gathered [OF m h(3)] a have "int (length (gathered w')) = 4" by simp
  with length_gathered_split [of "gathered w'"] cf a
  have wl: "int (length (written_texts (gathered w'))) = 2" by simp
  from pe wl show "completed_batches (stats self') = 2" by (simp add: init_generator_def)
  from pe cf show "failed_batches (stats self') = 2" by (simp add: init_generator_def)
  from wl show "length (written_texts (gathered w')) = 2" by simp
  from pe show "master_csv w'
          = header @ concat (map (\<lambda>t. t @ [newline]) (written_texts (gathered w')))"
    by simp
qed

theorem failed_batch_counted_once_and_dropped_witness:
  "0 < concurrency_level example_config \<and> backup_interval example_config \<noteq> 0
   \<and> num_batches example_config = 4
   \<and> length (filter (\<lambda>k. two_fail k = Raised) [1 .. 4]) = 2
   \<and> count_insufficient (gathered (snd (snd
        (process_batches example_config two_fail (\<lambda>_. 0) init_generator)))) = 0
   \<and> completed_batches (stats (fst (snd
        (process_batches example_config two_fail (\<lambda>_. 0) init_generator)))) = 2
   \<and> failed_batches (stats (fst (snd
        (process_batches example_config two_fail (\<lambda>_. 0) init_generator)))) = 2
   \<and> master_csv (snd (snd (process_batches example_config two_fail (\<lambda>_. 0) init_generator)))
       = header @ example_response 2 @ [newline] @ example_response 4 @ [newline]"
proof -
  let ?P = "process_batches example_config two_fail (\<lambda>_. 0) init_generator"
  have c: "0 < concurrency_level example_config" "backup_interval example_config \<noteq> 0"
    "num_batches example_config = 4"
    by (simp_all add: example_config_def config_default_def)
  have f: "length (filter (\<lambda>k. two_fail k = Raised) [1 .. 4]) = 2" by code_simp
  from run_two_fail have rt: "count_insufficient (gathered (snd (snd ?P))) = 0
      \<and> master_csv (snd (snd ?P))
          = header @ example_response 2 @ [newline] @ example_response 4 @ [newline]"
    by (simp add: case_prod_beta)
  then have i: "count_insufficient (gathered (snd (snd ?P))) = 0" by simp
  have p: "?P = (fst ?P, fst (snd ?P), snd (snd ?P))" by simp
  note t = failed_batch_counted_once_and_dropped
    [of _ _ _ example_config two_fail "\<lambda>_. 0" "fst ?P" "fst (snd ?P)" "snd (snd ?P)"]
  from t c f i p have r: "completed_batches (stats (fst (snd ?P))) = 2
      \<and> failed_batches (stats (fst (snd ?P))) = 2" by blast
  from rt have m: "master_csv (snd (snd ?P))
       = header @ example_response 2 @ [newline] @ example_response 4 @ [newline]"
    by simp
  from c f i r m show ?thesis by blast
qed

theorem short_accepted_lines_not_completed_counterexample:
  "num_batches example_config = 4
   \<and> length (filter (\<lambda>k. two_fail_short k = Raised) [1 .. 4]) = 2
   \<and> gathered (snd (snd (process_batches example_config two_fail_short (\<lambda>_. 0) init_generator)))
       = [(1, None), (2, Some ''Bolt Gym,hello@bolt.io,bolt.io''), (3, None),
          (4, Some ''Cafe Uno,ciao@cafeuno.it,cafeuno.it'')]
   \<and> completed_batches (stats (fst (snd
        (process_batches example_config two_fail_short (\<lambda>_. 0) init_generator)))) = 0
   \<and> master_csv (snd (snd (process_batches example_config two_fail_short (\<lambda>_. 0) init_generator)))
       = header"
proof -
  have a: "num_batches example_config = 4"
    by (simp add: example_config_def)
  have b: "length (filter (\<lambda>k. two_fail_short k = Raised) [1 .. 4]) = 2"
    by code_simp
  from run_two_fail_short a b show ?thesis
    by (simp add: case_prod_beta)
qed

text \<open>
  C10. A batch whose remote call answers but whose filtered text has at most 50
  characters after stripping is passed over by the loop: nothing is written to the
  output file, nothing is added to the backup data, and neither the counter of completed
  batches nor the counter of failed batches moves, in \<open>generate_batch\<close> or in the loop.
  In every run from the initial state (positive window size, non-zero backup interval,
  at least one batch) the two counters add up to \<open>num_batches\<close> less the number of
  such batches, so the sum is strictly below \<open>num_batches\<close> as soon as there is one.
\<close>

theorem insufficient_batch_counts_nowhere:
  "(length (py_strip t) \<le> 50 \<longrightarrow>
      handle_result k (Some t) (self, w)
        = (self, w\<lparr>gathered := gathered w @ [(k, Some t)]\<rparr>))
   \<and> (generate_batch self (Responded body) = (r, self1) \<longrightarrow>
      r \<noteq> None
      \<and> failed_batches (stats self1) = failed_batches (stats self)
      \<and> completed_batches (stats self1) = completed_batches (stats self)
      \<and> backup_data self1 = backup_data self)
   \<and> (0 < concurrency_level cfg \<and> backup_interval cfg \<noteq> 0 \<and> 0 < num_batches cfg
        \<and> process_batches cfg remote done_at init_generator = (e, self', w') \<longrightarrow>
      completed_batches (stats self') + failed_batches (stats self')
        = num_batches cfg - count_insufficient (gathered w')
      \<and> ((\<exists>k t. (k, Some t) \<in> set (gathered w') \<and> length (py_strip t) \<le> 50) \<longrightarrow>
           completed_batches (stats self') + failed_batches (stats self') < num_batches cfg))"
proof (intro conjI impI)
  assume "length (py_strip t) \<le> 50"
  then have "\<not> sufficient t" by (rule insufficient_short)
  then show "handle_result k (Some t) (self, w)
        = (self, w\<lparr>gathered := gathered w @ [(k, Some t)]\<rparr>)"
    by (simp add: handle_result_cases)
next
  assume g: "generate_batch self (Responded body) = (r, self1)"
  from generate_batch_effect [OF g]
  show "r \<noteq> None" "failed_batches (stats self1) = failed_batches (stats self)"
    "completed_batches (stats self1) = completed_batches (stats self)"
    "backup_data self1 = backup_data self"
    by simp_all
next
  assume a: "0 < concurrency_level cfg \<and> backup_interval cfg \<noteq> 0 \<and> 0 < num_batches cfg
        \<and> process_batches cfg remote done_at init_generator = (e, self', w')"
  then have h: "0 < concurrency_level cfg" "backup_interval cfg \<noteq> 0" "0 < num_batches cfg"
    "process_batches cfg remote done_at init_generator = (e, self', w')"
    by simp_all
  note pe = process_batches_effect [OF h]
  from pe have m: "map fst (gathered w') = [1 .. num_batches cfg]" by simp
  from length_gathered [OF m h(3)] length_gathered_split [of "gathered w'"]
  have "count_failed (gathered w') + int (length (written_texts (gathered w')))
      = num_batches cfg - count_insufficient (gathered w')"
    by simp
  with pe show s: "completed_batches (stats self') + failed_batches (stats self')
        = num_batches cfg - count_insufficient (gathered w')"
    by (simp add: init_generator_def)
  assume "\<exists>k t. (k, Some t) \<in> set (gathered w') \<and> length (py_strip t) \<le> 50"
  then obtain k t where kt: "(k, Some t) \<in> set (gathered w')" "length (py_strip t) \<le> 50"
    by blast
  from kt(2) have "\<not> sufficient t" by (rule insufficient_short)
  with kt(1) have "0 < count_insufficient (gathered w')" by (rule count_insufficient_pos)
  with s show "completed_batches (stats self') + failed_batches (stats self') < num_batches cfg"
    by simp
qed

theorem insufficient_batch_counts_nowhere_witness:
  "length (py_strip ''Bolt Gym,hello@bolt.io,bolt.io'') \<le> 50
   \<and> handle_result 2 (Some ''Bolt Gym,hello@bolt.io,bolt.io'') (init_generator, empty_world)
       = (init_generator, empty_world\<lparr>gathered := gathered empty_world @ [(2, Some ''Bolt Gym,hello@bolt.io,bolt.io'')]\<rparr>)
   \<and> 0 < concurrency_level example_config \<and> backup_interval example_config \<noteq> 0
   \<and> 0 < num_batches example_config
   \<and> (2, Some ''Bolt Gym,hello@bolt.io,bolt.io'')
        \<in> set (gathered (snd (snd
              (process_batches example_config one_short (\<lambda>_. 0) init_generator))))
   \<and> fst (generate_batch init_generator (Responded ''Bolt Gym,hello@bolt.io,bolt.io''))
        = Some ''Bolt Gym,hello@bolt.io,bolt.io''
   \<and> failed_batches (stats (snd
        (generate_batch init_generator (Responded ''Bolt Gym,hello@bolt.io,bolt.io'')))) = 0
   \<and> completed_batches (stats (fst (snd
            (process_batches example_config one_short (\<lambda>_. 0) init_generator))))
       + failed_batches (stats (fst (snd
            (process_batches example_config one_short (\<lambda>_. 0) init_generator))))
       < num_batches example_config"
proof -
  let ?t = "''Bolt Gym,hello@bolt.io,bolt.io''"
  let ?P = "process_batches example_config one_short (\<lambda>_. 0) init_generator"
  let ?G = "generate_batch init_generator (Responded ?t)"
  have l: "length (py_strip ?t) \<le> 50" by code_simp
  have c: "0 < concurrency_level example_config" "backup_interval example_config \<noteq> 0"
    "0 < num_batches example_config"
    by (simp_all add: example_config_def config_default_def)
  from run_one_short have g: "(2, Some ?t) \<in> set (gathered (snd (snd ?P)))"
    by (simp add: case_prod_beta)
  have p: "?P = (fst ?P, fst (snd ?P), snd (snd ?P))" by simp
  have q: "?G = (fst ?G, snd ?G)" by simp
  have gf: "fst ?G = Some ?t" by code_simp
  note t = insufficient_batch_counts_nowhere
    [of ?t 2 init_generator empty_world ?t "fst ?G" "snd ?G" example_config one_short "\<lambda>_. 0"
        "fst ?P" "fst (snd ?P)" "snd (snd ?P)"]
  from t l have r1: "handle_result 2 (Some ?t) (init_generator, empty_world)
       = (init_generator, empty_world\<lparr>gathered := gathered empty_world @ [(2, Some ?t)]\<rparr>)"
    by blast
  from t q have "failed_batches (stats (snd ?G)) = failed_batches (stats init_generator)"
    by blast
  then have r2: "failed_batches (stats (snd ?G)) = 0" by (simp add: init_generator_def)
  from g l have ex: "\<exists>k t. (k, Some t) \<in> set (gathered (snd (snd ?P))) \<and> length (py_strip t) \<le> 50"
    by blast
  from t c p ex have r3: "completed_batches (stats (fst (snd ?P)))
       + failed_batches (stats (fst (snd ?P))) < num_batches example_config"
    by blast
  from l r1 c g gf r2 r3 show ?thesis by blast
qed

text \<open>
  C4, at a run of four batches in windows of two with a backup interval of three and
  every remote call answering with a sufficient text: the counter of completed batches
  goes from 2 to 4 in the second window and is tested only after each window, so it is
  never seen at 3; the only snapshot written is the final one.
\<close>

theorem backup_skipped_when_counter_passes_interval:
  "completed_batches (stats (fst (snd
        (process_batches example_config all_respond (\<lambda>_. 0) init_generator)))) = 4
   \<and> backup_interval example_config = 3
   \<and> backup_writes (snd (snd (process_batches example_config all_respond (\<lambda>_. 0) init_generator)))
       = [[example_response 1, example_response 2, example_response 3, example_response 4]]"
proof -
  have a: "backup_interval example_config = 3"
    by (simp add: example_config_def)
  from run_all_respond a show ?thesis
    by (simp add: case_prod_beta)
qed

section \<open>Facts about the adoption level\<close>





lemma adoption_rules_nan:
  "adoption_rules NaN avg freq fol opp = ''moderate_adopter''"
  by (simp add: adoption_rules_def fl_le_def fl_ge_def)



section \<open>Facts about the segmentation pass\<close>

lemma getattr_non_adopters_file:
  "getattr_file cfg ''non_adopters_file'' = Inl (AttributeError ''non_adopters_file'')"
  by (simp add: getattr_file_def config_fields_def)

lemma write_bucket_non_adopters:
  "\<exists>e. write_bucket pd cfg df level cols ''non_adopters_file'' ws = (Some e, ws)"
  by (cases "sort_values pd cols (select_level level df)")
    (simp_all add: write_bucket_def getattr_non_adopters_file)

lemma create_segmented_files_raises:
  "\<exists>e. create_segmented_files pd cfg df ws = (Some e, ws)"
proof -
  from write_bucket_non_adopters obtain e where
    "write_bucket pd cfg df ''non_adopter'' [''opportunity_score'', ''contact_likelihood'']
       ''non_adopters_file'' ws = (Some e, ws)"
    by blast
  then show ?thesis by (simp add: create_segmented_files_def)
qed

lemma segment_body_raises: "\<exists>e. segment_body pd lib cfg = (Some e, [])"
proof (cases "load_master pd cfg")
  case (Inl e)
  then show ?thesis by (simp add: segment_body_def)
next
  case (Inr df0)
  show ?thesis
  proof (cases "clean df0")
    case (Inl e)
    with Inr show ?thesis by (simp add: segment_body_def)
  next
    case c: (Inr df1)
    from create_segmented_files_raises obtain e where
      "create_segmented_files pd cfg (classify lib df1) [] = (Some e, [])"
      by blast
    with Inr c show ?thesis by (simp add: segment_body_def)
  qed
qed

lemma segment_leads_no_write: "snd (segment_leads pandas_available pd lib cfg) = []"
proof -
  from segment_body_raises obtain e where "segment_body pd lib cfg = (Some e, [])" by blast
  then show ?thesis by (simp add: segment_leads_def)
qed

lemma segment_leads_not_completed:
  "fst (segment_leads pandas_available pd lib cfg) \<noteq> SegmentationCompleted"
proof -
  from segment_body_raises obtain e where "segment_body pd lib cfg = (Some e, [])" by blast
  then show ?thesis by (simp add: segment_leads_def)
qed

lemmas eval_segment =
  clean_def dropna_def keep_valid_emails_def email_of_def drop_duplicates_def is_na_def
  validate_email_def is_local_char_def is_alpha_def is_digit_def is_domain_char_def
  example_table_def example_pandas_def load_master_def

lemma example_table_cleans: "clean example_table = Inr example_table"
  by (simp add: eval_segment)

text \<open>
  C1, evaluated. \<open>Config\<close> has no field \<open>non_adopters_file\<close>, so the first write of
  \<open>_create_segmented_files\<close> ends in \<open>AttributeError\<close>: whatever the tables and the
  configuration, the pass writes no file and never reaches its end. At a master file
  of one valid row, which loads and cleans to itself, the pass logs the error on
  \<open>non_adopters_file\<close> and has written nothing.
\<close>

theorem segment_leads_writes_no_file:
  "getattr_file cfg ''non_adopters_file'' = Inl (AttributeError ''non_adopters_file'')
   \<and> snd (segment_leads pandas_available pd lib cfg) = []
   \<and> fst (segment_leads pandas_available pd lib cfg) \<noteq> SegmentationCompleted
   \<and> load_master example_pandas cfg = Inr example_table
   \<and> clean example_table = Inr example_table
   \<and> segment_leads True example_pandas lib cfg
       = (ErrorDuringSegmentation (AttributeError ''non_adopters_file''), [])"
proof (intro conjI)
  show "getattr_file cfg ''non_adopters_file'' = Inl (AttributeError ''non_adopters_file'')"
    by (rule getattr_non_adopters_file)
  show "snd (segment_leads pandas_available pd lib cfg) = []"
    by (rule segment_leads_no_write)
  show "fst (segment_leads pandas_available pd lib cfg) \<noteq> SegmentationCompleted"
    by (rule segment_leads_not_completed)
  show l: "load_master example_pandas cfg = Inr example_table"
    by (simp add: load_master_def example_pandas_def)
  show "clean example_table = Inr example_table"
    by (rule example_table_cleans)
  show "segment_leads True example_pandas lib cfg
       = (ErrorDuringSegmentation (AttributeError ''non_adopters_file''), [])"
  proof -
    have sv: "\<And>cols d. sort_values example_pandas cols d = Inr d"
      by (simp add: example_pandas_def)
    show ?thesis
      by (simp add: segment_leads_def segment_body_def l example_table_cleans
          create_segmented_files_def write_bucket_def getattr_non_adopters_file sv)
  qed
qed

text \<open>
  C8. \<open>segment_leads\<close> never lets an exception escape: it returns what it logged. When
  it logs an error, no write to the output file of the generation phase is among the
  writes it made. A failure of the load (other than the decoding error that triggers
  the second attempt), of the cleaning, or of the sorting before the first bucket is
  written is logged as that exception, with nothing written.
\<close>

theorem segmentation_error_leaves_master_untouched:
  "(segment_leads pandas_available pd lib cfg = (ErrorDuringSegmentation e, ws) \<longrightarrow>
      output_file cfg \<notin> fst ` set ws)
   \<and> (read_csv pd (output_file cfg) Utf8 = Inl e \<and> e \<noteq> UnicodeDecodeError \<longrightarrow>
      segment_leads True pd lib cfg = (ErrorDuringSegmentation e, []))
   \<and> (load_master pd cfg = Inr df \<and> clean df = Inl e \<longrightarrow>
      segment_leads True pd lib cfg = (ErrorDuringSegmentation e, []))
   \<and> (load_master pd cfg = Inr df \<and> clean df = Inr df1 \<and> rows df1 \<noteq> []
        \<and> sort_values pd [''opportunity_score'', ''contact_likelihood'']
             (select_level ''non_adopter'' (classify lib df1)) = Inl e \<longrightarrow>
      segment_leads True pd lib cfg = (ErrorDuringSegmentation e, []))"
proof (intro conjI impI)
  assume "segment_leads pandas_available pd lib cfg = (ErrorDuringSegmentation e, ws)"
  with segment_leads_no_write [of pandas_available pd lib cfg] have "ws = []" by simp
  then show "output_file cfg \<notin> fst ` set ws" by simp
next
  assume a: "read_csv pd (output_file cfg) Utf8 = Inl e \<and> e \<noteq> UnicodeDecodeError"
  then have "load_master pd cfg = Inl e"
    by (cases e) (simp_all add: load_master_def)
  then show "segment_leads True pd lib cfg = (ErrorDuringSegmentation e, [])"
    by (simp add: segment_leads_def segment_body_def)
next
  assume "load_master pd cfg = Inr df \<and> clean df = Inl e"
  then show "segment_leads True pd lib cfg = (ErrorDuringSegmentation e, [])"
    by (simp add: segment_leads_def segment_body_def)
next
  assume "load_master pd cfg = Inr df \<and> clean df = Inr df1 \<and> rows df1 \<noteq> []
        \<and> sort_values pd [''opportunity_score'', ''contact_likelihood'']
             (select_level ''non_adopter'' (classify lib df1)) = Inl e"
  then show "segment_leads True pd lib cfg = (ErrorDuringSegmentation e, [])"
    by (simp add: segment_leads_def segment_body_def create_segmented_files_def
        write_bucket_def)
qed

theorem segmentation_error_leaves_master_untouched_witness:
  "read_csv \<lparr>read_csv = (\<lambda>path enc. Inl FileNotFoundError),
              sort_values = (\<lambda>cols df. Inr df)\<rparr>
       (output_file (config_default ''20240101_0000'')) Utf8 = Inl FileNotFoundError
   \<and> FileNotFoundError \<noteq> UnicodeDecodeError
   \<and> segment_leads True
        \<lparr>read_csv = (\<lambda>path enc. Inl FileNotFoundError), sort_values = (\<lambda>cols df. Inr df)\<rparr>
        example_lib (config_default ''20240101_0000'')
       = (ErrorDuringSegmentation FileNotFoundError, [])
   \<and> output_file (config_default ''20240101_0000'')
        \<notin> fst ` set ([] :: (string \<times> dataframe) list)
   \<and> load_master example_pandas (config_default ''20240101_0000'') = Inr example_table
   \<and> clean (example_table\<lparr>columns := [''name'']\<rparr>) = Inl (KeyError ''email'')"
proof -
  let ?pd = "\<lparr>read_csv = (\<lambda>path enc. Inl FileNotFoundError :: exn + dataframe),
              sort_values = (\<lambda>cols df. Inr df :: exn + dataframe)\<rparr>"
  let ?cfg = "config_default ''20240101_0000''"
  have a: "read_csv ?pd (output_file ?cfg) Utf8 = Inl FileNotFoundError" by simp
  have b: "FileNotFoundError \<noteq> UnicodeDecodeError" by simp
  note t = segmentation_error_leaves_master_untouched
    [of True ?pd example_lib ?cfg FileNotFoundError "[]" example_table example_table]
  from t a b have r: "segment_leads True ?pd example_lib ?cfg
      = (ErrorDuringSegmentation FileNotFoundError, [])"
    by blast
  with t have m: "output_file ?cfg \<notin> fst ` set ([] :: (string \<times> dataframe) list)"
    by blast
  have l: "load_master example_pandas ?cfg = Inr example_table"
    by (simp add: load_master_def example_pandas_def)
  have c: "clean (example_table\<lparr>columns := [''name'']\<rparr>) = Inl (KeyError ''email'')"
    by (simp add: eval_segment)
  from a b r m l c show ?thesis by blast
qed

end
